theory Spec2Isabelle
  imports Complex_Main "HOL-Library.List_Lexorder"
begin

section \<open>Python values used by docs/messages.py\<close>

text \<open>
  The script handles two kinds of text. A file opened in binary mode yields \<open>bytes\<close>,
  modelled as a list of 8-bit characters. A Python \<open>str\<close> is a sequence of Unicode code
  points, modelled as a list of natural numbers. \<open>lit\<close> writes an ASCII literal as a
  \<open>str\<close>.
\<close>

type_synonym bytes = "char list"

type_synonym str = "nat list"

definition lit :: "string \<Rightarrow> str" where
  "lit s = map of_char s"

text \<open>Every exception the modelled code can raise is a value of this type.\<close>

datatype py_error =
    UnicodeDecodeError
  | KeyError
  | ZeroDivisionError
  | AttributeError
  | TypeError
  | OSError
  | IsADirectoryError
  | ValueError

text \<open>
  \<open>bytes.strip()\<close> removes the six ASCII whitespace bytes; \<open>str.strip()\<close> and
  \<open>str.rstrip()\<close> remove every code point for which \<open>str.isspace\<close> holds.
\<close>

definition bytes_isspace :: "char \<Rightarrow> bool" where
  "bytes_isspace c = (let n = (of_char c :: nat) in (9 \<le> n \<and> n \<le> 13) \<or> n = 32)"

definition str_isspace :: "nat \<Rightarrow> bool" where
  "str_isspace n =
     ((9 \<le> n \<and> n \<le> 13) \<or> (28 \<le> n \<and> n \<le> 32) \<or> n = 0x85 \<or> n = 0xA0 \<or> n = 0x1680
      \<or> (0x2000 \<le> n \<and> n \<le> 0x200A) \<or> n = 0x2028 \<or> n = 0x2029 \<or> n = 0x202F
      \<or> n = 0x205F \<or> n = 0x3000)"

definition bytes_strip :: "bytes \<Rightarrow> bytes" where
  "bytes_strip b = rev (dropWhile bytes_isspace (rev (dropWhile bytes_isspace b)))"

definition str_rstrip :: "str \<Rightarrow> str" where
  "str_rstrip s = rev (dropWhile str_isspace (rev s))"

definition str_strip :: "str \<Rightarrow> str" where
  "str_strip s = rev (dropWhile str_isspace (rev (dropWhile str_isspace s)))"

text \<open>\<open>sep.join(xs)\<close>.\<close>

fun join :: "str \<Rightarrow> str list \<Rightarrow> str" where
  "join sep [] = []"
| "join sep [x] = x"
| "join sep (x # y # r) = x @ sep @ join sep (y # r)"

text \<open>
  \<open>bytes.decode("utf-8")\<close> with the default strict error handling: well-formed UTF-8
  only (no overlong forms, no surrogates, nothing above U+10FFFF); anything else raises
  \<open>UnicodeDecodeError\<close>, here \<open>None\<close>.
\<close>

definition cont :: "nat \<Rightarrow> bool" where
  "cont b = (0x80 \<le> b \<and> b \<le> 0xBF)"

fun utf8 :: "nat list \<Rightarrow> str option" where
  "utf8 [] = Some []"
| "utf8 (b0 # bs) =
    (if b0 < 0x80 then map_option ((#) b0) (utf8 bs)
     else if 0xC2 \<le> b0 \<and> b0 \<le> 0xDF then
       (case bs of
          b1 # r \<Rightarrow>
            if cont b1
            then map_option ((#) ((b0 - 0xC0) * 0x40 + (b1 - 0x80))) (utf8 r)
            else None
        | _ \<Rightarrow> None)
     else if 0xE0 \<le> b0 \<and> b0 \<le> 0xEF then
       (case bs of
          b1 # b2 # r \<Rightarrow>
            if (if b0 = 0xE0 then 0xA0 else 0x80) \<le> b1
               \<and> b1 \<le> (if b0 = 0xED then 0x9F else 0xBF) \<and> cont b2
            then map_option
                   ((#) ((b0 - 0xE0) * 0x1000 + (b1 - 0x80) * 0x40 + (b2 - 0x80))) (utf8 r)
            else None
        | _ \<Rightarrow> None)
     else if 0xF0 \<le> b0 \<and> b0 \<le> 0xF4 then
       (case bs of
          b1 # b2 # b3 # r \<Rightarrow>
            if (if b0 = 0xF0 then 0x90 else 0x80) \<le> b1
               \<and> b1 \<le> (if b0 = 0xF4 then 0x8F else 0xBF) \<and> cont b2 \<and> cont b3
            then map_option
                   ((#) ((b0 - 0xF0) * 0x40000 + (b1 - 0x80) * 0x1000
                         + (b2 - 0x80) * 0x40 + (b3 - 0x80))) (utf8 r)
            else None
        | _ \<Rightarrow> None)
     else None)"

definition decode_utf8 :: "bytes \<Rightarrow> str option" where
  "decode_utf8 b = utf8 (map of_char b)"

text \<open>
  Iterating a file object opened in binary mode yields its lines: each ends with the
  byte 0x0A, which it keeps, except possibly the last.
\<close>

fun file_lines :: "bytes \<Rightarrow> bytes list" where
  "file_lines [] = []"
| "file_lines (c # cs) =
     (if c = CHR 0x0A then [c] # file_lines cs
      else (case file_lines cs of [] \<Rightarrow> [[c]] | l # ls \<Rightarrow> (c # l) # ls))"

section \<open>The block tokenizer: \<open>extract_blocks\<close>\<close>

text \<open>
  \<open>extract_blocks\<close> is a generator of tokens \<open>[lineno, funcname, message, comments]\<close>.
  A token is created as \<open>[lineno, "", [], []]\<close>; its third slot receives the joined
  text just before the token is yielded. The loop state is the token under construction
  (\<open>None\<close> between blocks) and the list \<open>messages\<close>; \<open>i\<close> is the index that
  \<open>enumerate\<close> hands out. The arguments \<open>keywords\<close>, \<open>comment_tags\<close> and
  \<open>options\<close> are never read and are left out. The tokens yielded are collected in a
  list; an exception ends the run with \<open>Inl\<close>.
\<close>

record token =
  tok_lineno :: nat
  tok_funcname :: str
  tok_message :: str
  tok_comments :: "str list"

definition new_token :: "nat \<Rightarrow> token" where
  "new_token lineno =
     \<lparr>tok_lineno = lineno, tok_funcname = [], tok_message = [], tok_comments = []\<rparr>"

definition yield_then :: "'a list \<Rightarrow> py_error + 'a list \<Rightarrow> py_error + 'a list" where
  "yield_then ys r = (case r of Inl e \<Rightarrow> Inl e | Inr zs \<Rightarrow> Inr (ys @ zs))"

fun extract_blocks_loop ::
  "nat \<Rightarrow> token option \<Rightarrow> str list \<Rightarrow> bytes list \<Rightarrow> py_error + token list" where
  "extract_blocks_loop i token messages [] =
     (case token of
        None \<Rightarrow> Inr []
      | Some t \<Rightarrow>
          if length messages > 0
          then Inr [t\<lparr>tok_message := join (lit ''\<newline>'') messages\<rparr>]
          else Inr [])"
| "extract_blocks_loop i token messages (text # rest) =
     (let lineno = i + 1;
          t = (case token of None \<Rightarrow> new_token lineno | Some t0 \<Rightarrow> t0);
          ms = (case token of None \<Rightarrow> [] | Some t0 \<Rightarrow> messages)
      in if bytes_strip text \<noteq> [] then
           (case decode_utf8 text of
              None \<Rightarrow> Inl UnicodeDecodeError
            | Some s \<Rightarrow> extract_blocks_loop (i + 1) (Some t) (ms @ [str_rstrip s]) rest)
         else
           yield_then
             (if length ms > 0 then [t\<lparr>tok_message := join (lit ''\<newline>'') ms\<rparr>] else [])
             (extract_blocks_loop (i + 1) None [] rest))"

definition extract_blocks :: "bytes list \<Rightarrow> py_error + token list" where
  "extract_blocks fileobj = extract_blocks_loop 0 None [] fileobj"


section \<open>The catalog model\<close>

text \<open>
  A message's \<open>id\<close> and \<open>string\<close> are each a \<open>str\<close>, or a tuple of \<open>str\<close> when the
  message has plural forms. The fields \<open>id\<close>, \<open>string\<close> and \<open>context\<close> are named
  \<open>msg_id\<close>, \<open>msg_string\<close> and \<open>msg_context\<close> here. \<open>fuzzy\<close> is the property
  \<open>'fuzzy' in flags\<close>. A location is a pair of a file path and a line number.
\<close>

datatype pyval = Str str | Tuple "str list"

record message =
  msg_id :: pyval
  msg_string :: pyval
  fuzzy :: bool
  locations :: "(str \<times> nat) list"
  auto_comments :: "str list"
  msg_context :: "str option"

text \<open>
  A catalog keeps its messages in an insertion-ordered dictionary \<open>_messages\<close>, here an
  association list \<open>messages\<close>. A key is the message's id (for a plural message its
  first form) together with its context.
\<close>

type_synonym key = "str \<times> str option"

record catalog =
  messages :: "(key \<times> message) list"
  locale_identifier :: "str option"

section \<open>The regenerator: \<open>po2text\<close>\<close>

text \<open>
  \<open>Path(p).name\<close> on a POSIX system: the path is split at \<open>/\<close>, empty components and
  \<open>.\<close> components are dropped, and the name is the last component left, or the empty
  string when there is none.
\<close>

fun split_sep :: "nat \<Rightarrow> str \<Rightarrow> str list" where
  "split_sep c [] = [[]]"
| "split_sep c (x # xs) =
     (if x = c then [] # split_sep c xs
      else (case split_sep c xs of [] \<Rightarrow> [[x]] | p # ps \<Rightarrow> (x # p) # ps))"

definition path_name :: "str \<Rightarrow> str" where
  "path_name p =
     (case filter (\<lambda>part. part \<noteq> [] \<and> part \<noteq> lit ''.'') (split_sep 47 p) of
        [] \<Rightarrow> []
      | part # parts \<Rightarrow> last (part # parts))"

text \<open>
  The dictionary \<open>files\<close> maps a file name to the list of \<open>(line, text)\<close> pairs
  collected for it, in insertion order. \<open>files_append files name v\<close> is
  \<open>files.setdefault(name, [])\<close> followed by \<open>files[name].append(v)\<close>.
\<close>

type_synonym files = "(str \<times> (nat \<times> pyval) list) list"

fun files_append :: "files \<Rightarrow> str \<Rightarrow> nat \<times> pyval \<Rightarrow> files" where
  "files_append [] name v = [(name, [v])]"
| "files_append ((k, vs) # rest) name v =
     (if k = name then (k, vs @ [v]) # rest else (k, vs) # files_append rest name v)"

text \<open>
  Lines 79 to 81: the text chosen for a message. \<open>m.fuzzy or msg.strip() == ""\<close>
  evaluates \<open>msg.strip()\<close> only when the message is not fuzzy; a tuple has no method
  \<open>strip\<close>.
\<close>

definition chosen_text :: "message \<Rightarrow> py_error + pyval" where
  "chosen_text m =
     (if fuzzy m then Inr (msg_id m)
      else (case msg_string m of
              Tuple forms \<Rightarrow> Inl AttributeError
            | Str s \<Rightarrow> if str_strip s = [] then Inr (msg_id m) else Inr (Str s)))"

text \<open>The inner loop over \<open>m.locations\<close> and the outer loop over the messages.\<close>

fun collect_locations :: "message \<Rightarrow> (str \<times> nat) list \<Rightarrow> files \<Rightarrow> py_error + files" where
  "collect_locations m [] files = Inr files"
| "collect_locations m (x # xs) files =
     (let name = path_name (fst x) in
      case chosen_text m of
        Inl e \<Rightarrow> Inl e
      | Inr msg \<Rightarrow> collect_locations m xs (files_append files name (snd x, msg)))"

fun collect_messages :: "message list \<Rightarrow> files \<Rightarrow> py_error + files" where
  "collect_messages [] files = Inr files"
| "collect_messages (m # ms) files =
     (case collect_locations m (locations m) files of
        Inl e \<Rightarrow> Inl e
      | Inr files' \<Rightarrow> collect_messages ms files')"

text \<open>
  Lines 87 to 93: each file receives its texts, each followed by two newlines.
  \<open>fp.write\<close> accepts a \<open>str\<close> only.
\<close>

fun write_messages :: "(nat \<times> pyval) list \<Rightarrow> py_error + str" where
  "write_messages [] = Inr []"
| "write_messages (x # xs) =
     (case snd x of
        Tuple forms \<Rightarrow> Inl TypeError
      | Str s \<Rightarrow>
          (case write_messages xs of
             Inl e \<Rightarrow> Inl e
           | Inr content \<Rightarrow> Inr (s @ lit ''\<newline>\<newline>'' @ content)))"

text \<open>
  \<open>open_w k\<close> is the exception that \<open>(destdir / k).open("w")\<close> raises because of the
  name \<open>k\<close> itself, if any: the empty name and \<open>..\<close> denote a directory, and a name
  with a NUL character is refused. Failures of the file system (permissions, a full disk,
  a directory that already has this name) are not modelled.
\<close>

definition open_w :: "str \<Rightarrow> py_error option" where
  "open_w k =
     (if k = [] \<or> k = lit ''..'' then Some IsADirectoryError
      else if 0 \<in> set k then Some ValueError
      else None)"

fun write_files :: "files \<Rightarrow> py_error + (str \<times> str) list" where
  "write_files [] = Inr []"
| "write_files ((k, msgs) # rest) =
     (case open_w k of
        Some e \<Rightarrow> Inl e
      | None \<Rightarrow>
          (case write_messages msgs of
             Inl e \<Rightarrow> Inl e
           | Inr content \<Rightarrow>
               (case write_files rest of
                  Inl e \<Rightarrow> Inl e
                | Inr dests \<Rightarrow> Inr ((k, content) # dests))))"

text \<open>
  \<open>po2text\<close> yields one destination per file name, \<open>destdir / k\<close>; the model returns
  the pairs of \<open>k\<close> and the content written, in the order of the dictionary.
  \<open>sorted(..., key=itemgetter(0))\<close> is a stable sort on the line number. A raised
  exception is \<open>Inl\<close>; what had been written to disk before it is not part of the value.
\<close>

definition po2text :: "catalog \<Rightarrow> py_error + (str \<times> str) list" where
  "po2text catalog =
     (case collect_messages (map snd (messages catalog)) [] of
        Inl e \<Rightarrow> Inl e
      | Inr files \<Rightarrow> write_files (map (\<lambda>(k, msgs). (k, sort_key fst msgs)) files))"

section \<open>The completion gate and \<open>generate\<close>\<close>

text \<open>
  Lines 176 to 187: the count of translated entries. \<open>template._messages[k]\<close> raises
  \<open>KeyError\<close> when the key is not in the template. \<open>==\<close> on a \<open>str\<close> and a tuple is
  \<open>False\<close>; the two \<open>isinstance\<close> tests tell a \<open>str\<close> from a tuple.
\<close>

fun nb_translated_loop ::
  "catalog \<Rightarrow> (key \<times> message) list \<Rightarrow> nat \<Rightarrow> py_error + nat" where
  "nb_translated_loop template [] nb_translated = Inr nb_translated"
| "nb_translated_loop template ((k, m) # rest) nb_translated =
     (case map_of (messages template) k of
        None \<Rightarrow> Inl KeyError
      | Some tm \<Rightarrow>
          if fuzzy m then nb_translated_loop template rest nb_translated
          else if msg_string tm = msg_string m
            then nb_translated_loop template rest nb_translated
          else if (case msg_string m of Str s \<Rightarrow> str_strip s = [] | Tuple forms \<Rightarrow> False)
            then nb_translated_loop template rest nb_translated
          else if (case msg_string m of
                     Str s \<Rightarrow> False
                   | Tuple forms \<Rightarrow> list_ex (\<lambda>x. str_strip x = []) forms)
            then nb_translated_loop template rest nb_translated
          else nb_translated_loop template rest (nb_translated + 1))"

text \<open>
  Python's floats are modelled by exact rational numbers. \<open>round(x, ndigits)\<close> rounds to
  the nearest multiple of \<open>10 ^ -ndigits\<close>, and a tie to the even one.
\<close>

definition COMPLETION_CUTOFF :: rat where
  "COMPLETION_CUTOFF = 90 / 100"

definition round_half_even :: "rat \<Rightarrow> int" where
  "round_half_even q =
     (let f = \<lfloor>q\<rfloor>; r = q - of_int f
      in if r < 1 / 2 then f else if 1 / 2 < r then f + 1 else if even f then f else f + 1)"

definition py_round :: "rat \<Rightarrow> nat \<Rightarrow> rat" where
  "py_round x ndigits = of_int (round_half_even (x * 10 ^ ndigits)) / 10 ^ ndigits"

text \<open>
  What \<open>generate\<close> reports for one locale: the line starting \<open>[-]\<close> of a locale under
  the cutoff, with the two counts, or the line starting \<open>[+]\<close> with the counts and the
  destination directory, together with the files written there.
\<close>

datatype report =
    Skipped nat nat
  | Written nat nat str "(str \<times> str) list"

text \<open>\<open>s.replace(old, new)\<close> for one-character strings, and \<open>str(x)\<close> of an optional \<open>str\<close>.\<close>

definition replace_char :: "nat \<Rightarrow> nat \<Rightarrow> str \<Rightarrow> str" where
  "replace_char old new s = map (\<lambda>c. if c = old then new else c) s"

definition str_of_optional :: "str option \<Rightarrow> str" where
  "str_of_optional x = (case x of None \<Rightarrow> lit ''None'' | Some s \<Rightarrow> s)"

text \<open>
  Lines 176 to 204, the body of the loop once the catalog is read; \<open>total_strings\<close> is
  \<open>len(template)\<close>. Dividing by zero raises \<open>ZeroDivisionError\<close>.
\<close>

definition generate_locale :: "catalog \<Rightarrow> catalog \<Rightarrow> py_error + report" where
  "generate_locale template catalog =
     (let total_strings = length (messages template) in
      case nb_translated_loop template (messages catalog) 0 of
        Inl e \<Rightarrow> Inl e
      | Inr nb_translated \<Rightarrow>
          if total_strings = 0 then Inl ZeroDivisionError
          else
            let pct = (of_nat nb_translated :: rat) / of_nat total_strings in
            if py_round pct 2 < COMPLETION_CUTOFF then Inr (Skipped nb_translated total_strings)
            else
              let destdir = replace_char (of_char CHR ''_'') (of_char CHR ''-'')
                              (str_of_optional (locale_identifier catalog)) in
              (case po2text catalog of
                 Inl e \<Rightarrow> Inl e
               | Inr dests \<Rightarrow> Inr (Written nb_translated total_strings destdir dests)))"

text \<open>
  A catalog file on disk either reads as a catalog, or opening and parsing it raises an
  exception. The loop of \<open>generate\<close> runs over the locale codes with their files, in
  sorted order; it has no exception handler, so the first exception ends the run. The
  result is the list of reports printed, and the exception that ended the run, if any.
\<close>

datatype po_file = Readable catalog | Unreadable py_error

fun generate_loop ::
  "catalog \<Rightarrow> (str \<times> po_file) list \<Rightarrow> (str \<times> report) list \<times> py_error option" where
  "generate_loop template [] = ([], None)"
| "generate_loop template ((code, po) # rest) =
     (if code = lit ''en_US'' then generate_loop template rest
      else
        (case po of
           Unreadable e \<Rightarrow> ([], Some e)
         | Readable catalog \<Rightarrow>
             (case generate_locale template catalog of
                Inl e \<Rightarrow> ([], Some e)
              | Inr r \<Rightarrow>
                  (let (reports, err) = generate_loop template rest
                   in ((code, r) # reports, err)))))"


section \<open>\<open>update\<close>\<close>

text \<open>
  The loop of \<open>update\<close> runs over the locale directories in the order \<open>iterdir\<close> lists
  them. A directory holds a catalog file or none; \<open>Readable c\<close> is a file that
  \<open>read_po\<close> reads as \<open>c\<close>, and a missing file starts from an empty catalog of that
  locale. \<open>Catalog.update\<close> belongs to the catalog library and is not
  part of this script; it is the parameter \<open>catalog_update\<close>, taking the catalog and the
  template. The loop has no exception handler. The result is the list of catalog files
  written, and the exception that ended the run, if any.
\<close>

fun update_loop ::
  "(catalog \<Rightarrow> catalog \<Rightarrow> catalog) \<Rightarrow> catalog \<Rightarrow> (str \<times> po_file option) list \<Rightarrow>
     (str \<times> catalog) list \<times> py_error option" where
  "update_loop catalog_update template [] = ([], None)"
| "update_loop catalog_update template ((name, po) # rest) =
     (case (case po of
              Some (Readable c) \<Rightarrow> Inr c
            | Some (Unreadable e) \<Rightarrow> Inl e
            | None \<Rightarrow> Inr \<lparr>messages = [], locale_identifier = Some name\<rparr>) of
        Inl e \<Rightarrow> ([], Some e)
      | Inr catalog \<Rightarrow>
          (let (written, err) = update_loop catalog_update template rest
           in ((name, catalog_update catalog template) # written, err)))"

definition update ::
  "(catalog \<Rightarrow> catalog \<Rightarrow> catalog) \<Rightarrow> po_file \<Rightarrow> (str \<times> po_file option) list \<Rightarrow>
     (str \<times> catalog) list \<times> py_error option" where
  "update catalog_update pot dirs =
     (case pot of
        Unreadable e \<Rightarrow> ([], Some e)
      | Readable template \<Rightarrow> update_loop catalog_update template dirs)"

section \<open>\<open>extract\<close>\<close>

text \<open>
  The function \<open>extract\<close> of the script is \<open>extract_tree\<close> here.
\<close>

text \<open>
  Modelled from the spec: \<open>Catalog.add\<close> of the catalog library, which is not part of
  this script. The spec (4.2) says of it: adding a message that already exists by identity
  appends the new location to the existing entry's \<open>locations\<close>, preserving insertion
  order, rather than creating a duplicate entry; no translation is attached. The identity
  is the pair of id and context (spec, 3). A new entry goes to the end of the catalog.
\<close>

fun add_locations ::
  "(key \<times> message) list \<Rightarrow> key \<Rightarrow> message \<Rightarrow> (key \<times> message) list" where
  "add_locations [] k new = [(k, new)]"
| "add_locations ((k', m) # rest) k new =
     (if k' = k then (k', m\<lparr>locations := locations m @ locations new\<rparr>) # rest
      else (k', m) # add_locations rest k new)"

definition catalog_add ::
  "catalog \<Rightarrow> str \<Rightarrow> (str \<times> nat) list \<Rightarrow> str list \<Rightarrow> str option \<Rightarrow> catalog" where
  "catalog_add template ident locs comments ctx =
     template\<lparr>messages :=
       add_locations (messages template) (ident, ctx)
         \<lparr>msg_id = Str ident, msg_string = Str [], fuzzy = False, locations = locs,
          auto_comments = comments, msg_context = ctx\<rparr>\<rparr>"

text \<open>
  Modelled from the spec: \<open>extract_from_file\<close> of the catalog library. The spec (4.2)
  says: run the tokenizer on the file, and each block is added with its text as id and
  its start line. It yields \<open>(lineno, message, comments, context)\<close> for every token of
  \<open>extract_blocks\<close>, with no context.
\<close>

definition extract_from_file ::
  "bytes \<Rightarrow> py_error + (nat \<times> str \<times> str list \<times> str option) list" where
  "extract_from_file content =
     (case extract_blocks (file_lines content) of
        Inl e \<Rightarrow> Inl e
      | Inr toks \<Rightarrow>
          Inr (map (\<lambda>t. (tok_lineno t, tok_message t, tok_comments t, None)) toks))"

text \<open>
  Lines 97 to 110 of \<open>extract\<close>. The document tree is the list of the files that
  \<open>rglob\<close> visits, in that order, each with its path relative to \<open>ROOT\<close> and its
  content. The template starts empty. Writing the template to disk is not modelled.
\<close>

fun add_all :: "catalog \<Rightarrow> str \<Rightarrow> (nat \<times> str \<times> str list \<times> str option) list \<Rightarrow> catalog" where
  "add_all template f [] = template"
| "add_all template f ((lineno, message, comments, ctx) # rest) =
     add_all (catalog_add template message [(f, lineno)] comments ctx) f rest"

fun extract_loop :: "catalog \<Rightarrow> (str \<times> bytes) list \<Rightarrow> py_error + catalog" where
  "extract_loop template [] = Inr template"
| "extract_loop template ((f, content) # rest) =
     (case extract_from_file content of
        Inl e \<Rightarrow> Inl e
      | Inr found \<Rightarrow> extract_loop (add_all template f found) rest)"

definition extract_tree :: "(str \<times> bytes) list \<Rightarrow> py_error + catalog" where
  "extract_tree tree = extract_loop \<lparr>messages = [], locale_identifier = None\<rparr> tree"

section \<open>The synchronizer\<close>

text \<open>
  Modelled from the spec: \<open>Catalog.update\<close> of the catalog library, which is not part of
  this script. The spec (4.3) gives the merge rule per template entry with identity \<open>k\<close>:
  if \<open>k\<close> exists in the existing catalog with a non-fuzzy translation, carry over the
  existing translated string and \<open>fuzzy = false\<close>, but take locations and automatic
  comments from the template; if \<open>k\<close> does not exist, create a new entry with empty
  translation, \<open>fuzzy = false\<close> and the template's locations; an entry of the existing
  catalog that is absent from the template is dropped. The spec does not say what becomes
  of an existing entry that is fuzzy: the model keeps its string and its flag.
\<close>

definition sync_entry :: "catalog \<Rightarrow> key \<times> message \<Rightarrow> key \<times> message" where
  "sync_entry existing e =
     (case map_of (messages existing) (fst e) of
        None \<Rightarrow> (fst e, (snd e)\<lparr>msg_string := Str [], fuzzy := False\<rparr>)
      | Some old \<Rightarrow> (fst e, (snd e)\<lparr>msg_string := msg_string old, fuzzy := fuzzy old\<rparr>))"

definition sync :: "catalog \<Rightarrow> catalog \<Rightarrow> catalog" where
  "sync template existing = existing\<lparr>messages := map (sync_entry existing) (messages template)\<rparr>"

section \<open>Predicates used in the proofs\<close>

text \<open>
  \<open>block_of ls t\<close>: the token \<open>t\<close> is the block of a maximal run of non-blank lines of
  \<open>ls\<close>, numbered from its first line. \<open>loop_state pre st ms\<close> is the invariant of the
  tokenizer's loop after the lines \<open>pre\<close>.
\<close>

definition block_of :: "bytes list \<Rightarrow> token \<Rightarrow> bool" where
  "block_of ls t \<longleftrightarrow>
     (\<exists>pre run post ss.
        ls = pre @ run @ post \<and> run \<noteq> [] \<and>
        (\<forall>x \<in> set run. bytes_strip x \<noteq> []) \<and>
        (pre = [] \<or> bytes_strip (last pre) = []) \<and>
        (post = [] \<or> bytes_strip (hd post) = []) \<and>
        map decode_utf8 run = map Some ss \<and>
        t = (new_token (length pre + 1))
              \<lparr>tok_message := join (lit ''\<newline>'') (map str_rstrip ss)\<rparr>)"

definition loop_state :: "bytes list \<Rightarrow> token option \<Rightarrow> str list \<Rightarrow> bool" where
  "loop_state pre st ms \<longleftrightarrow>
     (case st of
        None \<Rightarrow> pre = [] \<or> bytes_strip (last pre) = []
      | Some t0 \<Rightarrow>
          (\<exists>p0 run ss.
             pre = p0 @ run \<and> run \<noteq> [] \<and> (\<forall>x \<in> set run. bytes_strip x \<noteq> []) \<and>
             (p0 = [] \<or> bytes_strip (last p0) = []) \<and>
             t0 = new_token (length p0 + 1) \<and>
             map decode_utf8 run = map Some ss \<and> ms = map str_rstrip ss))"

text \<open>
  \<open>entries_of fs k\<close> is \<open>files.get(k, [])\<close>. \<open>located ms k\<close> is the set of
  \<open>(line, text)\<close> pairs that the messages \<open>ms\<close> contribute to the file name \<open>k\<close>,
  and \<open>names_of ms\<close> the set of file names their locations end in.
\<close>

definition entries_of :: "files \<Rightarrow> str \<Rightarrow> (nat \<times> pyval) list" where
  "entries_of fs k = (case map_of fs k of None \<Rightarrow> [] | Some vs \<Rightarrow> vs)"

definition located :: "message list \<Rightarrow> str \<Rightarrow> (nat \<times> pyval) set" where
  "located ms k =
     {(l, v). \<exists>m p. m \<in> set ms \<and> (p, l) \<in> set (locations m) \<and> path_name p = k \<and>
                     chosen_text m = Inr v}"

definition names_of :: "message list \<Rightarrow> str set" where
  "names_of ms = {path_name p | p m l. m \<in> set ms \<and> (p, l) \<in> set (locations m)}"

text \<open>
  \<open>counted template e\<close>: the entry \<open>e\<close> of a locale catalog adds one to
  \<open>nb_translated\<close>.
\<close>

definition counted :: "catalog \<Rightarrow> key \<times> message \<Rightarrow> bool" where
  "counted template e \<longleftrightarrow>
     (\<not> fuzzy (snd e) \<and>
      (\<exists>tm. map_of (messages template) (fst e) = Some tm \<and> msg_string tm \<noteq> msg_string (snd e)) \<and>
      (case msg_string (snd e) of
         Str s \<Rightarrow> str_strip s \<noteq> []
       | Tuple forms \<Rightarrow> list_all (\<lambda>x. str_strip x \<noteq> []) forms))"

text \<open>
  For the extraction: \<open>locs_of ms k\<close> is the list of locations of the entry with key
  \<open>k\<close>, empty when there is none; \<open>found_at f found k\<close> lists the locations in file
  \<open>f\<close> of the blocks \<open>found\<close> there whose identity is \<open>k\<close>, and \<open>occurrences\<close>
  does so for a whole tree; \<open>keys_found\<close> and \<open>keys_in\<close> are the identities that occur;
  \<open>untranslated ms\<close> says that every entry carries its key's id, an empty string and no
  fuzzy flag.
\<close>

definition locs_of :: "(key \<times> message) list \<Rightarrow> key \<Rightarrow> (str \<times> nat) list" where
  "locs_of ms k = (case map_of ms k of None \<Rightarrow> [] | Some m \<Rightarrow> locations m)"

definition found_at ::
  "str \<Rightarrow> (nat \<times> str \<times> str list \<times> str option) list \<Rightarrow> key \<Rightarrow> (str \<times> nat) list" where
  "found_at f found k =
     map (\<lambda>b. (f, fst b))
       (filter (\<lambda>(lineno, message, comments, ctx). (message, ctx) = k) found)"

definition occurrences :: "(str \<times> bytes) list \<Rightarrow> key \<Rightarrow> (str \<times> nat) list" where
  "occurrences tree k =
     concat (map (\<lambda>(f, content).
                    case extract_from_file content of
                      Inl e \<Rightarrow> []
                    | Inr found \<Rightarrow> found_at f found k) tree)"

definition keys_found :: "(nat \<times> str \<times> str list \<times> str option) list \<Rightarrow> key set" where
  "keys_found found = (\<lambda>(lineno, message, comments, ctx). (message, ctx)) ` set found"

definition keys_in :: "(str \<times> bytes) list \<Rightarrow> key set" where
  "keys_in tree =
     (\<Union>(f, content) \<in> set tree.
        case extract_from_file content of Inl e \<Rightarrow> {} | Inr found \<Rightarrow> keys_found found)"

definition untranslated :: "(key \<times> message) list \<Rightarrow> bool" where
  "untranslated ms \<longleftrightarrow>
     (\<forall>(k, m) \<in> set ms. msg_id m = Str (fst k) \<and> msg_string m = Str [] \<and> \<not> fuzzy m)"



section \<open>Example values\<close>

text \<open>
  \<open>singular i s fz locs\<close> is a catalog entry without plural forms or context: its
  key, and the message with id \<open>i\<close>, string \<open>s\<close>, fuzzy flag \<open>fz\<close> and the
  locations \<open>locs\<close>.
\<close>

definition singular :: "string \<Rightarrow> string \<Rightarrow> bool \<Rightarrow> (string \<times> nat) list \<Rightarrow> key \<times> message" where
  "singular i s fz locs =
     ((lit i, None),
      \<lparr>msg_id = Str (lit i), msg_string = Str (lit s), fuzzy = fz,
       locations = map (\<lambda>(p, l). (lit p, l)) locs, auto_comments = [], msg_context = None\<rparr>)"

definition catalog_xy :: catalog where
  "catalog_xy =
     \<lparr>messages = [singular ''a'' ''x'' False [(''en-US/index.md'', 1)],
                  singular ''b'' ''y'' False [(''en-US/index.md'', 3)]],
      locale_identifier = Some (lit ''fr'')\<rparr>"

definition catalog_ab :: catalog where
  "catalog_ab =
     \<lparr>messages = [singular ''b'' ''b'' False [(''en-US/index.md'', 3)],
                  singular ''a'' ''a'' False [(''en-US/index.md'', 1)]],
      locale_identifier = Some (lit ''fr'')\<rparr>"

definition catalog_mixed :: catalog where
  "catalog_mixed =
     \<lparr>messages = [singular ''one'' ''un'' False [(''en-US/a/x.md'', 1)],
                  singular ''two'' ''deux'' True [(''en-US/a/x.md'', 3)],
                  singular ''three'' ''  '' False [(''en-US/b/x.md'', 2)],
                  singular ''four'' '''' False [(''en-US/y.md'', 1)]],
      locale_identifier = Some (lit ''fr'')\<rparr>"

definition template10 :: catalog where
  "template10 =
     \<lparr>messages = map (\<lambda>(i, l). singular i '''' False [(''en-US/index.md'', l)])
        [(''a'', 1), (''b'', 3), (''c'', 5), (''d'', 7), (''e'', 9),
         (''f'', 11), (''g'', 13), (''h'', 15), (''i'', 17), (''j'', 19)],
      locale_identifier = None\<rparr>"

definition catalog9 :: catalog where
  "catalog9 =
     \<lparr>messages = map (\<lambda>(i, s, l). singular i s False [(''en-US/index.md'', l)])
        [(''a'', ''A'', 1), (''b'', ''B'', 3), (''c'', ''C'', 5), (''d'', ''D'', 7),
         (''e'', ''E'', 9), (''f'', ''F'', 11), (''g'', ''G'', 13), (''h'', ''H'', 15),
         (''i'', ''I'', 17), (''j'', '''', 19)],
      locale_identifier = Some (lit ''pt_BR'')\<rparr>"

definition catalog_z :: catalog where
  "catalog_z =
     \<lparr>messages = [singular ''a'' ''A'' False [(''en-US/index.md'', 1)],
                  singular ''z'' ''Z'' False [(''en-US/index.md'', 21)]],
      locale_identifier = Some (lit ''fr'')\<rparr>"

definition written9 :: report where
  "written9 =
     Written 9 10 (lit ''pt-BR'')
       [(lit ''index.md'',
         lit ''A\<newline>\<newline>B\<newline>\<newline>C\<newline>\<newline>D\<newline>\<newline>E\<newline>\<newline>F\<newline>\<newline>G\<newline>\<newline>H\<newline>\<newline>I\<newline>\<newline>j\<newline>\<newline>'')]"

definition tree2 :: "(str \<times> bytes) list" where
  "tree2 =
     [(lit ''en-US/a.md'', ''x\<newline>\<newline>y\<newline>''),
      (lit ''en-US/sub/b.md'', ''y\<newline>\<newline>x\<newline>\<newline>x\<newline>'')]"

definition template2 :: catalog where
  "template2 =
     \<lparr>messages =
        [singular ''x'' '''' False
           [(''en-US/a.md'', 1), (''en-US/sub/b.md'', 3), (''en-US/sub/b.md'', 5)],
         singular ''y'' '''' False [(''en-US/a.md'', 3), (''en-US/sub/b.md'', 1)]],
      locale_identifier = None\<rparr>"

definition existing_fr :: catalog where
  "existing_fr =
     \<lparr>messages = [singular ''x'' ''iks'' False [(''en-US/old.md'', 7)],
                  singular ''gone'' ''parti'' False [(''en-US/old.md'', 9)]],
      locale_identifier = Some (lit ''fr'')\<rparr>"

definition template_xy :: catalog where
  "template_xy =
     \<lparr>messages =
        [singular ''x'' '''' False [(''en-US/a.md'', 1), (''en-US/sub/b.md'', 3)],
         singular ''y'' '''' False [(''en-US/a.md'', 3)]],
      locale_identifier = None\<rparr>"


definition catalog8 :: catalog where
  "catalog8 =
     \<lparr>messages = map (\<lambda>(i, s, l). singular i s False [(''en-US/index.md'', l)])
        [(''a'', ''A'', 1), (''b'', ''B'', 3), (''c'', ''C'', 5), (''d'', ''D'', 7),
         (''e'', ''E'', 9), (''f'', ''F'', 11), (''g'', ''G'', 13), (''h'', ''H'', 15),
         (''i'', '''', 17), (''j'', '''', 19)],
      locale_identifier = Some (lit ''pt_BR'')\<rparr>"

section \<open>The tokenizer numbers a block by its first line\<close>

lemma loop_state_None: "loop_state pre None ms \<longleftrightarrow> (pre = [] \<or> bytes_strip (last pre) = [])"
  by (simp add: loop_state_def)

lemma loop_state_start:
  assumes "loop_state pre None ms" "bytes_strip text \<noteq> []" "decode_utf8 text = Some s"
  shows "loop_state (pre @ [text]) (Some (new_token (length pre + 1))) [str_rstrip s]"
  unfolding loop_state_def option.case
  apply (rule exI [of _ pre], rule exI [of _ "[text]"], rule exI [of _ "[s]"])
  using assms by (simp add: loop_state_def)

lemma loop_state_extend:
  assumes "loop_state pre (Some t0) ms" "bytes_strip text \<noteq> []" "decode_utf8 text = Some s"
  shows "loop_state (pre @ [text]) (Some t0) (ms @ [str_rstrip s])"
proof -
  from assms(1) obtain p0 run ss where h:
    "pre = p0 @ run" "run \<noteq> []" "\<forall>x \<in> set run. bytes_strip x \<noteq> []"
    "p0 = [] \<or> bytes_strip (last p0) = []" "t0 = new_token (length p0 + 1)"
    "map decode_utf8 run = map Some ss" "ms = map str_rstrip ss"
    by (auto simp: loop_state_def)
  show ?thesis
    unfolding loop_state_def option.case
    apply (rule exI [of _ p0], rule exI [of _ "run @ [text]"], rule exI [of _ "ss @ [s]"])
    using h assms(2,3) by simp
qed

lemma loop_state_blank:
  assumes "bytes_strip text = []"
  shows "loop_state (pre @ [text]) None []"
  using assms by (simp add: loop_state_def)

lemma loop_state_yield:
  assumes "loop_state pre (Some t0) ms" "bytes_strip text = []"
  shows "block_of (pre @ text # rest) (t0\<lparr>tok_message := join (lit ''\<newline>'') ms\<rparr>)" and "ms \<noteq> []"
proof -
  from assms(1) obtain p0 run ss where h:
    "pre = p0 @ run" "run \<noteq> []" "\<forall>x \<in> set run. bytes_strip x \<noteq> []"
    "p0 = [] \<or> bytes_strip (last p0) = []" "t0 = new_token (length p0 + 1)"
    "map decode_utf8 run = map Some ss" "ms = map str_rstrip ss"
    by (auto simp: loop_state_def)
  from h(2,6,7) show "ms \<noteq> []" by auto
  show "block_of (pre @ text # rest) (t0\<lparr>tok_message := join (lit ''\<newline>'') ms\<rparr>)"
    unfolding block_of_def
    apply (rule exI [of _ p0], rule exI [of _ run], rule exI [of _ "text # rest"], rule exI [of _ ss])
    using h assms(2) by simp
qed

lemma loop_state_final:
  assumes "loop_state pre (Some t0) ms"
  shows "block_of pre (t0\<lparr>tok_message := join (lit ''\<newline>'') ms\<rparr>)" and "ms \<noteq> []"
proof -
  from assms(1) obtain p0 run ss where h:
    "pre = p0 @ run" "run \<noteq> []" "\<forall>x \<in> set run. bytes_strip x \<noteq> []"
    "p0 = [] \<or> bytes_strip (last p0) = []" "t0 = new_token (length p0 + 1)"
    "map decode_utf8 run = map Some ss" "ms = map str_rstrip ss"
    by (auto simp: loop_state_def)
  from h(2,6,7) show "ms \<noteq> []" by auto
  show "block_of pre (t0\<lparr>tok_message := join (lit ''\<newline>'') ms\<rparr>)"
    unfolding block_of_def
    apply (rule exI [of _ p0], rule exI [of _ run], rule exI [of _ "[]"], rule exI [of _ ss])
    using h by simp
qed

lemma extract_blocks_loop_blocks:
  "loop_state pre st ms \<Longrightarrow> extract_blocks_loop (length pre) st ms rest = Inr toks \<Longrightarrow>
   t \<in> set toks \<Longrightarrow> block_of (pre @ rest) t"
proof (induction rest arbitrary: pre st ms toks)
  case Nil
  then show ?case
    by (cases st) (auto split: if_splits dest: loop_state_final)
next
  case (Cons ln rest)
  show ?case
  proof (cases "bytes_strip ln = []")
    case blank: True
    have nxt: "loop_state (pre @ [ln]) None []"
      by (rule loop_state_blank [OF blank])
    show ?thesis
    proof (cases st)
      case None
      with Cons.prems blank obtain toks' where
        "extract_blocks_loop (length (pre @ [ln])) None [] rest = Inr toks'" "t \<in> set toks'"
        by (auto simp: yield_then_def split: sum.splits)
      from Cons.IH [OF nxt this] show ?thesis by simp
    next
      case (Some t0)
      with Cons.prems(1) have st: "loop_state pre (Some t0) ms" by simp
      note y = loop_state_yield(1) [OF st blank, of rest] loop_state_yield(2) [OF st blank]
      from Cons.prems(2,3) Some blank y(2) obtain toks' where
        r: "extract_blocks_loop (length (pre @ [ln])) None [] rest = Inr toks'"
        and t: "t = t0\<lparr>tok_message := join (lit ''\<newline>'') ms\<rparr> \<or> t \<in> set toks'"
        by (auto simp: yield_then_def split: sum.splits)
      from t show ?thesis
      proof
        assume "t = t0\<lparr>tok_message := join (lit ''\<newline>'') ms\<rparr>"
        with y(1) show ?thesis by simp
      next
        assume "t \<in> set toks'"
        from Cons.IH [OF nxt r this] show ?thesis by simp
      qed
    qed
  next
    case nonblank: False
    with Cons.prems(2) obtain s where s: "decode_utf8 ln = Some s"
      by (cases "decode_utf8 ln") (auto simp: Let_def)
    show ?thesis
    proof (cases st)
      case None
      with Cons.prems(1) have st: "loop_state pre None ms" by simp
      note nxt = loop_state_start [OF st nonblank s]
      from Cons.prems(2) None nonblank s have
        "extract_blocks_loop (length (pre @ [ln])) (Some (new_token (length pre + 1))) [str_rstrip s] rest = Inr toks"
        by simp
      from Cons.IH [OF nxt this Cons.prems(3)] show ?thesis by simp
    next
      case (Some t0)
      with Cons.prems(1) have st: "loop_state pre (Some t0) ms" by simp
      note nxt = loop_state_extend [OF st nonblank s]
      from Cons.prems(2) Some nonblank s have
        "extract_blocks_loop (length (pre @ [ln])) (Some t0) (ms @ [str_rstrip s]) rest = Inr toks"
        by simp
      from Cons.IH [OF nxt this Cons.prems(3)] show ?thesis by simp
    qed
  qed
qed

lemma extract_blocks_block_of:
  "extract_blocks ls = Inr toks \<Longrightarrow> t \<in> set toks \<Longrightarrow> block_of ls t"
  using extract_blocks_loop_blocks [of "[]" None "[]" ls toks t]
  by (simp add: extract_blocks_def loop_state_def)

lemmas eval_defs =
  extract_blocks_def bytes_strip_def bytes_isspace_def decode_utf8_def str_rstrip_def
  str_strip_def str_isspace_def new_token_def yield_then_def lit_def open_w_def

lemma extract_blocks_example:
  "extract_blocks (file_lines ''a\<newline>b\<newline>\<newline>c\<newline>'') =
     Inr [(new_token 1)\<lparr>tok_message := lit ''a\<newline>b''\<rparr>,
          (new_token 4)\<lparr>tok_message := lit ''c''\<rparr>]"
  by (simp add: eval_defs)

text \<open>
  C3, as amended. On the input \<open>"a\nb\n\nc\n"\<close> the tokenizer yields exactly two
  blocks: line 1 with text \<open>"a\nb"\<close>, and line 4 with text \<open>"c"\<close> (the blank line is
  line 3). In general every block yielded is a maximal run of non-blank lines: its
  start line is the 1-based number of the run's first line, which is the first line of the
  file or follows a blank line, and its text is the run's lines, decoded and stripped on
  the right, joined by newlines.
\<close>

theorem extract_blocks_start_line:
  "extract_blocks (file_lines ''a\<newline>b\<newline>\<newline>c\<newline>'') =
     Inr [(new_token 1)\<lparr>tok_message := lit ''a\<newline>b''\<rparr>,
          (new_token 4)\<lparr>tok_message := lit ''c''\<rparr>]
   \<and> (\<forall>fileobj toks t.
        extract_blocks fileobj = Inr toks \<longrightarrow> t \<in> set toks \<longrightarrow>
        (\<exists>pre run post ss.
           fileobj = pre @ run @ post \<and> tok_lineno t = length pre + 1 \<and> run \<noteq> [] \<and>
           (\<forall>x \<in> set run. bytes_strip x \<noteq> []) \<and>
           (pre = [] \<or> bytes_strip (last pre) = []) \<and>
           (post = [] \<or> bytes_strip (hd post) = []) \<and>
           map decode_utf8 run = map Some ss \<and>
           tok_message t = join (lit ''\<newline>'') (map str_rstrip ss)))"
proof (intro conjI allI impI)
  show "extract_blocks (file_lines ''a\<newline>b\<newline>\<newline>c\<newline>'') =
     Inr [(new_token 1)\<lparr>tok_message := lit ''a\<newline>b''\<rparr>,
          (new_token 4)\<lparr>tok_message := lit ''c''\<rparr>]"
    by (rule extract_blocks_example)
next
  fix fileobj toks t
  assume "extract_blocks fileobj = Inr toks" "t \<in> set toks"
  then have "block_of fileobj t" by (rule extract_blocks_block_of)
  then obtain pre run post ss where h:
    "fileobj = pre @ run @ post" "run \<noteq> []" "\<forall>x \<in> set run. bytes_strip x \<noteq> []"
    "pre = [] \<or> bytes_strip (last pre) = []" "post = [] \<or> bytes_strip (hd post) = []"
    "map decode_utf8 run = map Some ss"
    "t = (new_token (length pre + 1))
           \<lparr>tok_message := join (lit ''\<newline>'') (map str_rstrip ss)\<rparr>"
    unfolding block_of_def by blast
  from h(7) have "tok_lineno t = length pre + 1"
    and "tok_message t = join (lit ''\<newline>'') (map str_rstrip ss)"
    by (simp_all add: new_token_def)
  with h(1-6) show "\<exists>pre run post ss.
           fileobj = pre @ run @ post \<and> tok_lineno t = length pre + 1 \<and> run \<noteq> [] \<and>
           (\<forall>x \<in> set run. bytes_strip x \<noteq> []) \<and>
           (pre = [] \<or> bytes_strip (last pre) = []) \<and>
           (post = [] \<or> bytes_strip (hd post) = []) \<and>
           map decode_utf8 run = map Some ss \<and>
           tok_message t = join (lit ''\<newline>'') (map str_rstrip ss)"
    by blast
qed

theorem extract_blocks_start_line_witness:
  "extract_blocks (file_lines ''a\<newline>b\<newline>\<newline>c\<newline>'') =
     Inr [(new_token 1)\<lparr>tok_message := lit ''a\<newline>b''\<rparr>,
          (new_token 4)\<lparr>tok_message := lit ''c''\<rparr>]
   \<and> (new_token 4)\<lparr>tok_message := lit ''c''\<rparr>
       \<in> set [(new_token 1)\<lparr>tok_message := lit ''a\<newline>b''\<rparr>,
               (new_token 4)\<lparr>tok_message := lit ''c''\<rparr>]
   \<and> (\<exists>pre run post ss.
         file_lines ''a\<newline>b\<newline>\<newline>c\<newline>'' = pre @ run @ post \<and>
         tok_lineno ((new_token 4)\<lparr>tok_message := lit ''c''\<rparr>) = length pre + 1 \<and>
         run \<noteq> [] \<and>
         (\<forall>x \<in> set run. bytes_strip x \<noteq> []) \<and>
         (pre = [] \<or> bytes_strip (last pre) = []) \<and>
         (post = [] \<or> bytes_strip (hd post) = []) \<and>
         map decode_utf8 run = map Some ss \<and>
         tok_message ((new_token 4)\<lparr>tok_message := lit ''c''\<rparr>) =
           join (lit ''\<newline>'') (map str_rstrip ss))"
proof -
  note th = extract_blocks_start_line
  from th have e: "extract_blocks (file_lines ''a\<newline>b\<newline>\<newline>c\<newline>'') =
     Inr [(new_token 1)\<lparr>tok_message := lit ''a\<newline>b''\<rparr>,
          (new_token 4)\<lparr>tok_message := lit ''c''\<rparr>]"
    by (rule conjunct1)
  have m: "(new_token 4)\<lparr>tok_message := lit ''c''\<rparr>
       \<in> set [(new_token 1)\<lparr>tok_message := lit ''a\<newline>b''\<rparr>,
               (new_token 4)\<lparr>tok_message := lit ''c''\<rparr>]"
    by simp
  from th [THEN conjunct2, rule_format, OF e m] e m show ?thesis
    by (intro conjI)
qed

theorem extract_blocks_line_3_counterexample:
  "map_sum id (map (\<lambda>t. (tok_lineno t, tok_message t)))
     (extract_blocks (file_lines ''a\<newline>b\<newline>\<newline>c\<newline>''))
     = Inr [(1, lit ''a\<newline>b''), (4, lit ''c'')]
   \<and> map_sum id (map (\<lambda>t. (tok_lineno t, tok_message t)))
       (extract_blocks (file_lines ''a\<newline>b\<newline>\<newline>c\<newline>''))
     \<noteq> Inr [(1, lit ''a\<newline>b''), (3, lit ''c'')]"
  by (simp add: eval_defs)

section \<open>The regenerator\<close>

lemma files_append_keys:
  "map fst (files_append fs n v) =
     (if n \<in> fst ` set fs then map fst fs else map fst fs @ [n])"
  by (induction fs n v rule: files_append.induct) (auto simp: image_iff)

lemma files_append_distinct:
  "distinct (map fst fs) \<Longrightarrow> distinct (map fst (files_append fs n v))"
  by (simp add: files_append_keys)

lemma files_append_key_set: "fst ` set (files_append fs n v) = insert n (fst ` set fs)"
proof -
  have "set (map fst (files_append fs n v)) = insert n (set (map fst fs))"
    unfolding files_append_keys by auto
  then show ?thesis by simp
qed

lemma files_append_entries:
  "entries_of (files_append fs n v) k = entries_of fs k @ (if k = n then [v] else [])"
  by (induction fs n v rule: files_append.induct) (auto simp: entries_of_def)

lemma entries_of_member:
  "distinct (map fst fs) \<Longrightarrow> (k, msgs) \<in> set fs \<Longrightarrow> entries_of fs k = msgs"
  by (simp add: entries_of_def)

lemma collect_locations_Inr:
  assumes "collect_locations m locs fs = Inr fs'"
  shows "(distinct (map fst fs) \<longrightarrow> distinct (map fst fs'))
       \<and> fst ` set fs' = fst ` set fs \<union> path_name ` fst ` set locs
       \<and> (locs \<noteq> [] \<longrightarrow> (\<exists>v. chosen_text m = Inr v))
       \<and> (\<forall>k. set (entries_of fs' k) = set (entries_of fs k) \<union>
             {(l, v). \<exists>p. (p, l) \<in> set locs \<and> path_name p = k \<and> chosen_text m = Inr v})"
  using assms
proof (induction locs arbitrary: fs)
  case Nil
  then show ?case by simp
next
  case (Cons x xs)
  from Cons.prems obtain msg where msg: "chosen_text m = Inr msg"
    and rec: "collect_locations m xs (files_append fs (path_name (fst x)) (snd x, msg)) = Inr fs'"
    by (cases "chosen_text m") (auto simp: Let_def)
  note ih = Cons.IH [OF rec]
  note ih1 = ih [THEN conjunct1]
  note ih2 = ih [THEN conjunct2, THEN conjunct1]
  note ih4 = ih [THEN conjunct2, THEN conjunct2, THEN conjunct2, rule_format]
  have d: "distinct (map fst fs) \<longrightarrow> distinct (map fst fs')"
    using ih1 by (simp add: files_append_distinct)
  have k: "fst ` set fs' = fst ` set fs \<union> path_name ` fst ` set (x # xs)"
    unfolding ih2 files_append_key_set by auto
  have e: "set (entries_of fs' k) = set (entries_of fs k) \<union>
             {(l, v). \<exists>p. (p, l) \<in> set (x # xs) \<and> path_name p = k \<and> chosen_text m = Inr v}" for k
    unfolding ih4 [of k] files_append_entries using msg by (cases x) auto
  have c: "x # xs \<noteq> [] \<longrightarrow> (\<exists>v. chosen_text m = Inr v)"
    using msg by simp
  from d k c e show ?case by (intro conjI allI)
qed

lemma collect_messages_Inr:
  assumes "collect_messages ms fs = Inr fs'"
  shows "(distinct (map fst fs) \<longrightarrow> distinct (map fst fs'))
       \<and> fst ` set fs' = fst ` set fs \<union> names_of ms
       \<and> (\<forall>m \<in> set ms. locations m \<noteq> [] \<longrightarrow> (\<exists>v. chosen_text m = Inr v))
       \<and> (\<forall>k. set (entries_of fs' k) = set (entries_of fs k) \<union> located ms k)"
  using assms
proof (induction ms arbitrary: fs)
  case Nil
  then show ?case by (simp add: names_of_def located_def)
next
  case (Cons m ms)
  from Cons.prems obtain fs1 where one: "collect_locations m (locations m) fs = Inr fs1"
    and rec: "collect_messages ms fs1 = Inr fs'"
    by (cases "collect_locations m (locations m) fs") auto
  note h = collect_locations_Inr [OF one]
  note h1 = h [THEN conjunct1]
  note h2 = h [THEN conjunct2, THEN conjunct1]
  note h3 = h [THEN conjunct2, THEN conjunct2, THEN conjunct1]
  note h4 = h [THEN conjunct2, THEN conjunct2, THEN conjunct2, rule_format]
  note ih = Cons.IH [OF rec]
  note ih1 = ih [THEN conjunct1]
  note ih2 = ih [THEN conjunct2, THEN conjunct1]
  note ih3 = ih [THEN conjunct2, THEN conjunct2, THEN conjunct1]
  note ih4 = ih [THEN conjunct2, THEN conjunct2, THEN conjunct2, rule_format]
  have d: "distinct (map fst fs) \<longrightarrow> distinct (map fst fs')"
    using h1 ih1 by simp
  have n: "names_of (m # ms) = path_name ` fst ` set (locations m) \<union> names_of ms"
  proof (intro set_eqI iffI)
    fix k assume "k \<in> names_of (m # ms)"
    then obtain p m' l where "k = path_name p" "m' = m \<or> m' \<in> set ms" "(p, l) \<in> set (locations m')"
      by (auto simp: names_of_def)
    then show "k \<in> path_name ` fst ` set (locations m) \<union> names_of ms"
      by (force simp: names_of_def)
  next
    fix k assume "k \<in> path_name ` fst ` set (locations m) \<union> names_of ms"
    then show "k \<in> names_of (m # ms)"
      by (fastforce simp: names_of_def)
  qed
  have k: "fst ` set fs' = fst ` set fs \<union> names_of (m # ms)"
    unfolding ih2 h2 n by auto
  have c: "\<forall>m' \<in> set (m # ms). locations m' \<noteq> [] \<longrightarrow> (\<exists>v. chosen_text m' = Inr v)"
    using h3 ih3 by simp
  have l: "located (m # ms) k =
      {(l, v). \<exists>p. (p, l) \<in> set (locations m) \<and> path_name p = k \<and> chosen_text m = Inr v}
      \<union> located ms k" for k
    by (auto simp: located_def)
  have e: "\<forall>k. set (entries_of fs' k) = set (entries_of fs k) \<union> located (m # ms) k"
    unfolding ih4 h4 l by auto
  from d k c e show ?case by (intro conjI)
qed

lemma write_messages_member:
  "write_messages xs = Inr content \<Longrightarrow> (l, v) \<in> set xs \<Longrightarrow>
   \<exists>s pre post. v = Str s \<and> content = pre @ s @ lit ''\<newline>\<newline>'' @ post"
proof (induction xs arbitrary: content)
  case Nil
  then show ?case by simp
next
  case (Cons x xs)
  from Cons.prems(1) obtain s c where x: "snd x = Str s"
    and r: "write_messages xs = Inr c" and c: "content = s @ lit ''\<newline>\<newline>'' @ c"
    by (auto split: pyval.splits sum.splits)
  from Cons.prems(2) consider "x = (l, v)" | "(l, v) \<in> set xs" by auto
  then show ?case
  proof cases
    case 1
    with x c have "v = Str s \<and> content = [] @ s @ lit ''\<newline>\<newline>'' @ c" by simp
    then show ?thesis by blast
  next
    case 2
    from Cons.IH [OF r 2] obtain s' pre post where
      "v = Str s'" "c = pre @ s' @ lit ''\<newline>\<newline>'' @ post" by blast
    with c have "v = Str s' \<and> content = (s @ lit ''\<newline>\<newline>'' @ pre) @ s' @ lit ''\<newline>\<newline>'' @ post"
      by simp
    then show ?thesis by blast
  qed
qed


lemma write_files_Inr:
  "write_files fs = Inr out \<Longrightarrow>
   map fst out = map fst fs \<and>
   (\<forall>k msgs. (k, msgs) \<in> set fs \<longrightarrow>
      (\<exists>content. (k, content) \<in> set out \<and> write_messages msgs = Inr content)) \<and>
   (\<forall>k content. (k, content) \<in> set out \<longrightarrow>
      (\<exists>msgs. (k, msgs) \<in> set fs \<and> write_messages msgs = Inr content))"
proof (induction fs arbitrary: out)
  case Nil
  then show ?case by simp
next
  case (Cons a fs)
  obtain k0 msgs0 where a: "a = (k0, msgs0)" by (cases a)
  from Cons.prems a obtain c0 out' where c0: "write_messages msgs0 = Inr c0"
    and r: "write_files fs = Inr out'" and out: "out = (k0, c0) # out'"
    by (auto split: sum.splits option.splits)
  note ih = Cons.IH [OF r]
  have 1: "map fst out = map fst (a # fs)"
    using ih [THEN conjunct1] a out by simp
  have 2: "\<forall>k msgs. (k, msgs) \<in> set (a # fs) \<longrightarrow>
      (\<exists>content. (k, content) \<in> set out \<and> write_messages msgs = Inr content)"
    using ih [THEN conjunct2, THEN conjunct1] a c0 out by auto
  have 3: "\<forall>k content. (k, content) \<in> set out \<longrightarrow>
      (\<exists>msgs. (k, msgs) \<in> set (a # fs) \<and> write_messages msgs = Inr content)"
    using ih [THEN conjunct2, THEN conjunct2] a c0 out by auto
  from 1 2 3 show ?case by (intro conjI)
qed




lemma split_sep_no_sep: "part \<in> set (split_sep c s) \<Longrightarrow> c \<notin> set part"
proof (induction s arbitrary: part)
  case Nil
  then show ?case by simp
next
  case (Cons x xs)
  show ?case
  proof (cases "x = c")
    case True
    with Cons show ?thesis by auto
  next
    case False
    show ?thesis
    proof (cases "split_sep c xs")
      case Nil
      with Cons.prems False show ?thesis by simp
    next
      case (Cons q qs)
      with Cons.prems False have "part = x # q \<or> part \<in> set qs" by simp
      moreover have "c \<notin> set q" "\<And>r. r \<in> set qs \<Longrightarrow> c \<notin> set r"
        using Cons.IH Cons by simp_all
      ultimately show ?thesis using False by auto
    qed
  qed
qed

lemma path_name_no_sep: "47 \<notin> set (path_name p)"
proof (cases "filter (\<lambda>part. part \<noteq> [] \<and> part \<noteq> lit ''.'') (split_sep 47 p)")
  case Nil
  then show ?thesis by (simp add: path_name_def)
next
  case (Cons q qs)
  then have "path_name p = last (q # qs)" by (simp add: path_name_def)
  moreover have "last (q # qs) \<in> set (q # qs)" by (rule last_in_set) simp
  ultimately have "path_name p \<in> set (split_sep 47 p)"
    by (metis Cons filter_is_subset subsetD)
  then show ?thesis by (rule split_sep_no_sep)
qed

lemma chosen_text_Str:
  "chosen_text m = Inr (Str s) \<Longrightarrow>
   Str s = (if \<not> fuzzy m \<and> (\<exists>t. msg_string m = Str t \<and> str_strip t \<noteq> [])
            then msg_string m else msg_id m)"
  by (auto simp: chosen_text_def split: if_splits pyval.splits)

lemma po2text_phases:
  "po2text catalog = Inr out \<Longrightarrow>
   \<exists>fs. collect_messages (map snd (messages catalog)) [] = Inr fs \<and>
        write_files (map (\<lambda>(k, msgs). (k, sort_key fst msgs)) fs) = Inr out"
  by (auto simp: po2text_def split: sum.splits)

lemma map_fst_sorted_files: "map fst (map (\<lambda>(k, msgs). (k, sort_key fst msgs)) fs) = map fst fs"
  by (induction fs) auto

lemma po2text_names:
  assumes "po2text catalog = Inr out"
  shows "distinct (map fst out)"
    and "set (map fst out) = names_of (map snd (messages catalog))"
proof -
  from po2text_phases [OF assms] obtain fs where
    c: "collect_messages (map snd (messages catalog)) [] = Inr fs" and
    w: "write_files (map (\<lambda>(k, msgs). (k, sort_key fst msgs)) fs) = Inr out" by blast
  from write_files_Inr [OF w] have "map fst out = map fst (map (\<lambda>(k, msgs). (k, sort_key fst msgs)) fs)"
    by (rule conjunct1)
  then have m: "map fst out = map fst fs"
    by (simp only: map_fst_sorted_files)
  note h = collect_messages_Inr [OF c]
  from h [THEN conjunct1] m show "distinct (map fst out)" by simp
  from h [THEN conjunct2, THEN conjunct1] m show
    "set (map fst out) = names_of (map snd (messages catalog))" by simp
qed

lemma po2text_location:
  assumes "po2text catalog = Inr out"
    and "m \<in> snd ` set (messages catalog)" and "(p, l) \<in> set (locations m)"
  shows "\<exists>content s pre post.
           (path_name p, content) \<in> set out \<and> chosen_text m = Inr (Str s) \<and>
           content = pre @ s @ lit ''\<newline>\<newline>'' @ post"
proof -
  let ?ms = "map snd (messages catalog)"
  let ?k = "path_name p"
  from po2text_phases [OF assms(1)] obtain fs where
    c: "collect_messages ?ms [] = Inr fs" and
    w: "write_files (map (\<lambda>(k, msgs). (k, sort_key fst msgs)) fs) = Inr out" by blast
  note h = collect_messages_Inr [OF c]
  from h [THEN conjunct1] have d: "distinct (map fst fs)" by simp
  from assms(2) have mem: "m \<in> set ?ms" by simp
  from assms(3) have ne: "locations m \<noteq> []" by auto
  from h [THEN conjunct2, THEN conjunct2, THEN conjunct1] mem ne
  obtain v where v: "chosen_text m = Inr v" by blast
  from mem assms(3) v have "(l, v) \<in> located ?ms ?k"
    unfolding located_def by blast
  with h [THEN conjunct2, THEN conjunct2, THEN conjunct2, rule_format, of ?k]
  have lv: "(l, v) \<in> set (entries_of fs ?k)" by (simp add: entries_of_def)
  then have "entries_of fs ?k \<noteq> []" by auto
  then obtain msgs where f: "(?k, msgs) \<in> set fs"
    by (auto simp: entries_of_def split: option.splits dest: map_of_SomeD)
  from entries_of_member [OF d f] lv have "(l, v) \<in> set msgs" by simp
  then have s: "(l, v) \<in> set (sort_key fst msgs)" by simp
  from f have "(?k, sort_key fst msgs) \<in> set (map (\<lambda>(k, msgs). (k, sort_key fst msgs)) fs)"
    by force
  with write_files_Inr [OF w] obtain content where
    o: "(?k, content) \<in> set out" and wm: "write_messages (sort_key fst msgs) = Inr content"
    by blast
  from write_messages_member [OF wm s] obtain s' pre post where
    "v = Str s'" "content = pre @ s' @ lit ''\<newline>\<newline>'' @ post" by blast
  with o v show ?thesis by blast
qed

lemmas example_defs = singular_def catalog_xy_def catalog_ab_def catalog_mixed_def

lemma po2text_catalog_mixed:
  "po2text catalog_mixed =
     Inr [(lit ''x.md'', lit ''un\<newline>\<newline>three\<newline>\<newline>two\<newline>\<newline>''),
          (lit ''y.md'', lit ''four\<newline>\<newline>'')]"
  by (simp add: po2text_def chosen_text_def example_defs eval_defs path_name_def)

text \<open>
  C5, as amended. For a locale catalog that is a full, non-fuzzy translation of a template
  extracted from a single file with the blocks (line 1, "a") and (line 3, "b"),
  regeneration emits for that file exactly the two translated strings in line order, each
  followed by two newlines, whatever the order of the entries in the catalog. The content
  is \<open>"a\n\nb\n\n"\<close> when the translation is identity-preserving, that is when the
  translated strings are "a" and "b" themselves. The file is a file of the tree, so its
  path ends in a name under which a file can be opened.
\<close>

theorem po2text_round_trip:
  assumes "msg_id ma = Str (lit ''a'')" "msg_id mb = Str (lit ''b'')"
    and "locations ma = [(f, 1)]" "locations mb = [(f, 3)]"
    and "\<not> fuzzy ma" "\<not> fuzzy mb"
    and "msg_string ma = Str ta" "msg_string mb = Str tb"
    and "str_strip ta \<noteq> []" "str_strip tb \<noteq> []"
    and "open_w (path_name f) = None"
  shows "po2text \<lparr>messages = [(ka, ma), (kb, mb)], locale_identifier = loc\<rparr>
           = Inr [(path_name f, ta @ lit ''\<newline>\<newline>'' @ tb @ lit ''\<newline>\<newline>'')]
       \<and> po2text \<lparr>messages = [(kb, mb), (ka, ma)], locale_identifier = loc\<rparr>
           = Inr [(path_name f, ta @ lit ''\<newline>\<newline>'' @ tb @ lit ''\<newline>\<newline>'')]"
  using assms by (simp add: po2text_def chosen_text_def)

theorem po2text_round_trip_witness:
  "po2text catalog_ab = Inr [(lit ''index.md'', lit ''a\<newline>\<newline>b\<newline>\<newline>'')]"
  using po2text_round_trip [of "snd (singular ''a'' ''a'' False [(''en-US/index.md'', 1)])"
      "snd (singular ''b'' ''b'' False [(''en-US/index.md'', 3)])" "lit ''en-US/index.md''"
      "lit ''a''" "lit ''b''" "(lit ''a'', None)" "(lit ''b'', None)" "Some (lit ''fr'')"]
  by (simp add: example_defs eval_defs path_name_def)

theorem po2text_translation_counterexample:
  "po2text catalog_xy = Inr [(lit ''index.md'', lit ''x\<newline>\<newline>y\<newline>\<newline>'')]
   \<and> po2text catalog_xy \<noteq> Inr [(lit ''index.md'', lit ''a\<newline>\<newline>b\<newline>\<newline>'')]"
  by (simp add: po2text_def chosen_text_def example_defs eval_defs path_name_def)



text \<open>
  A location whose path has no final component, or ends in \<open>..\<close>, names a directory:
  opening the destination raises, and nothing is returned.
\<close>

lemma po2text_unopenable:
  "po2text \<lparr>messages = [singular ''a'' ''a'' False [(''/'', 1)]],
            locale_identifier = None\<rparr> = Inl IsADirectoryError"
  "po2text \<lparr>messages = [singular ''a'' ''a'' False [(''en-US/..'', 1)]],
            locale_identifier = None\<rparr> = Inl IsADirectoryError"
  by (simp_all add: po2text_def chosen_text_def singular_def eval_defs path_name_def)



lemma names_of_UN: "names_of ms = (\<Union>m \<in> set ms. path_name ` fst ` set (locations m))"
proof (intro set_eqI iffI)
  fix k assume "k \<in> names_of ms"
  then obtain p m l where "k = path_name p" "m \<in> set ms" "(p, l) \<in> set (locations m)"
    by (auto simp: names_of_def)
  then show "k \<in> (\<Union>m \<in> set ms. path_name ` fst ` set (locations m))" by force
next
  fix k assume "k \<in> (\<Union>m \<in> set ms. path_name ` fst ` set (locations m))"
  then show "k \<in> names_of ms" by (fastforce simp: names_of_def)
qed

lemma unique_content:
  "distinct (map fst out) \<Longrightarrow> (k, c) \<in> set out \<Longrightarrow> (k, c') \<in> set out \<Longrightarrow> c' = c"
  by (rule eq_key_imp_eq_value)

text \<open>
  C9. Regeneration groups by the final component of each location's path only. Whenever
  \<open>po2text\<close> returns, there is exactly one destination per file name, the names are the
  final components of the locations' paths and contain no \<open>/\<close>, so every destination
  lies directly under the output directory; and two locations whose paths end in the same
  name have their texts in the same single destination, whatever directories the paths
  name.
\<close>

theorem po2text_groups_by_file_name:
  "\<forall>(catalog :: catalog) out.
     po2text catalog = Inr out \<longrightarrow>
     distinct (map fst out) \<and>
     set (map fst out) =
       (\<Union>m \<in> snd ` set (messages catalog). path_name ` fst ` set (locations m)) \<and>
     (\<forall>k \<in> set (map fst out). of_char CHR ''/'' \<notin> set k) \<and>
     (\<forall>(m1 :: message) p1 l1 (m2 :: message) p2 l2.
        m1 \<in> snd ` set (messages catalog) \<longrightarrow> (p1, l1) \<in> set (locations m1) \<longrightarrow>
        m2 \<in> snd ` set (messages catalog) \<longrightarrow> (p2, l2) \<in> set (locations m2) \<longrightarrow>
        path_name p1 = path_name p2 \<longrightarrow>
        (\<exists>content s1 pre1 post1 s2 pre2 post2.
           (path_name p1, content) \<in> set out \<and>
           (\<forall>c. (path_name p1, c) \<in> set out \<longrightarrow> c = content) \<and>
           chosen_text m1 = Inr (Str s1) \<and>
           content = pre1 @ s1 @ lit ''\<newline>\<newline>'' @ post1 \<and>
           chosen_text m2 = Inr (Str s2) \<and>
           content = pre2 @ s2 @ lit ''\<newline>\<newline>'' @ post2))"
proof (intro allI impI conjI ballI)
  fix catalog :: catalog and out
  assume p: "po2text catalog = Inr out"
  note n = po2text_names [OF p]
  show d: "distinct (map fst out)" by (rule n(1))
  show "set (map fst out) =
       (\<Union>m \<in> snd ` set (messages catalog). path_name ` fst ` set (locations m))"
    unfolding n(2) names_of_UN by simp
  {
    fix k assume "k \<in> set (map fst out)"
    with n(2) have "k \<in> names_of (map snd (messages catalog))" by simp
    then obtain q where "k = path_name q" by (auto simp: names_of_def)
    then show "of_char CHR ''/'' \<notin> set k" using path_name_no_sep [of q] by simp
  }
  {
    fix m1 :: message and p1 l1 and m2 :: message and p2 l2
    assume a1: "m1 \<in> snd ` set (messages catalog)" "(p1, l1) \<in> set (locations m1)"
      and a2: "m2 \<in> snd ` set (messages catalog)" "(p2, l2) \<in> set (locations m2)"
      and eq: "path_name p1 = path_name p2"
    from po2text_location [OF p a1] obtain c1 s1 pre1 post1 where
      h1: "(path_name p1, c1) \<in> set out" "chosen_text m1 = Inr (Str s1)"
          "c1 = pre1 @ s1 @ lit ''\<newline>\<newline>'' @ post1" by blast
    from po2text_location [OF p a2] eq obtain c2 s2 pre2 post2 where
      h2: "(path_name p1, c2) \<in> set out" "chosen_text m2 = Inr (Str s2)"
          "c2 = pre2 @ s2 @ lit ''\<newline>\<newline>'' @ post2" by auto
    have u: "\<forall>c. (path_name p1, c) \<in> set out \<longrightarrow> c = c1"
      using unique_content [OF d h1(1)] by blast
    with h2(1) have "c2 = c1" by blast
    with h1 h2 u
    show "\<exists>content s1 pre1 post1 s2 pre2 post2.
           (path_name p1, content) \<in> set out \<and>
           (\<forall>c. (path_name p1, c) \<in> set out \<longrightarrow> c = content) \<and>
           chosen_text m1 = Inr (Str s1) \<and>
           content = pre1 @ s1 @ lit ''\<newline>\<newline>'' @ post1 \<and>
           chosen_text m2 = Inr (Str s2) \<and>
           content = pre2 @ s2 @ lit ''\<newline>\<newline>'' @ post2"
      by blast
  }
qed

theorem po2text_groups_by_file_name_witness:
  "po2text catalog_mixed =
     Inr [(lit ''x.md'', lit ''un\<newline>\<newline>three\<newline>\<newline>two\<newline>\<newline>''),
          (lit ''y.md'', lit ''four\<newline>\<newline>'')]
   \<and> path_name (lit ''en-US/a/x.md'') = path_name (lit ''en-US/b/x.md'')
   \<and> lit ''en-US/a/x.md'' \<noteq> lit ''en-US/b/x.md''
   \<and> distinct (map fst [(lit ''x.md'', lit ''un\<newline>\<newline>three\<newline>\<newline>two\<newline>\<newline>''),
          (lit ''y.md'', lit ''four\<newline>\<newline>'')])
   \<and> (\<exists>content s1 pre1 post1 s2 pre2 post2.
         (path_name (lit ''en-US/a/x.md''), content)
           \<in> set [(lit ''x.md'', lit ''un\<newline>\<newline>three\<newline>\<newline>two\<newline>\<newline>''),
                   (lit ''y.md'', lit ''four\<newline>\<newline>'')] \<and>
         chosen_text (snd (singular ''one'' ''un'' False [(''en-US/a/x.md'', 1)])) = Inr (Str s1) \<and>
         content = pre1 @ s1 @ lit ''\<newline>\<newline>'' @ post1 \<and>
         chosen_text (snd (singular ''three'' ''  '' False [(''en-US/b/x.md'', 2)])) = Inr (Str s2) \<and>
         content = pre2 @ s2 @ lit ''\<newline>\<newline>'' @ post2)"
proof -
  let ?m1 = "snd (singular ''one'' ''un'' False [(''en-US/a/x.md'', 1)])"
  let ?m2 = "snd (singular ''three'' ''  '' False [(''en-US/b/x.md'', 2)])"
  let ?out = "[(lit ''x.md'', lit ''un\<newline>\<newline>three\<newline>\<newline>two\<newline>\<newline>''),
          (lit ''y.md'', lit ''four\<newline>\<newline>'')]"
  note th = po2text_groups_by_file_name [rule_format, OF po2text_catalog_mixed]
  have e: "po2text catalog_mixed = Inr ?out" by (rule po2text_catalog_mixed)
  have n: "path_name (lit ''en-US/a/x.md'') = path_name (lit ''en-US/b/x.md'')"
    by (simp add: path_name_def lit_def)
  have ne: "lit ''en-US/a/x.md'' \<noteq> lit ''en-US/b/x.md''" by (simp add: lit_def)
  have m1: "?m1 \<in> snd ` set (messages catalog_mixed)" by (simp add: example_defs)
  have l1: "(lit ''en-US/a/x.md'', 1) \<in> set (locations ?m1)" by (simp add: example_defs)
  have m2: "?m2 \<in> snd ` set (messages catalog_mixed)" by (simp add: example_defs)
  have l2: "(lit ''en-US/b/x.md'', 2) \<in> set (locations ?m2)" by (simp add: example_defs)
  from th [THEN conjunct1] have d: "distinct (map fst ?out)" .
  from th [THEN conjunct2, THEN conjunct2, THEN conjunct2, rule_format, OF m1 l1 m2 l2 n]
  have x: "\<exists>content s1 pre1 post1 s2 pre2 post2.
         (path_name (lit ''en-US/a/x.md''), content) \<in> set ?out \<and>
         chosen_text ?m1 = Inr (Str s1) \<and>
         content = pre1 @ s1 @ lit ''\<newline>\<newline>'' @ post1 \<and>
         chosen_text ?m2 = Inr (Str s2) \<and>
         content = pre2 @ s2 @ lit ''\<newline>\<newline>'' @ post2"
    by blast
  from e n ne d x show ?thesis by (intro conjI)
qed

section \<open>The completion gate\<close>

lemma nb_translated_loop_count:
  "\<forall>k \<in> fst ` set entries. map_of (messages template) k \<noteq> None \<Longrightarrow>
   nb_translated_loop template entries nb = Inr (nb + length (filter (counted template) entries))"
proof (induction entries arbitrary: nb)
  case Nil
  then show ?case by simp
next
  case (Cons e entries)
  obtain k m where e: "e = (k, m)" by (cases e)
  with Cons.prems obtain tm where tm: "map_of (messages template) k = Some tm" by auto
  from Cons.prems have rest: "\<forall>k \<in> fst ` set entries. map_of (messages template) k \<noteq> None"
    by simp
  note ih = Cons.IH [OF rest]
  show ?case
  proof (cases "counted template e")
    case True
    with e tm have "nb_translated_loop template (e # entries) nb =
        nb_translated_loop template entries (nb + 1)"
      by (auto simp: counted_def list_ex_iff list_all_iff split: pyval.splits)
    with True ih [of "nb + 1"] show ?thesis by simp
  next
    case False
    with e tm have "nb_translated_loop template (e # entries) nb =
        nb_translated_loop template entries nb"
      by (auto simp: counted_def list_ex_iff list_all_iff split: pyval.splits)
    with False ih [of nb] show ?thesis by simp
  qed
qed

lemma nb_translated_loop_KeyError:
  "\<exists>k \<in> fst ` set entries. map_of (messages template) k = None \<Longrightarrow>
   nb_translated_loop template entries nb = Inl KeyError"
proof (induction entries arbitrary: nb)
  case Nil
  then show ?case by simp
next
  case (Cons e entries)
  obtain k m where e: "e = (k, m)" by (cases e)
  show ?case
  proof (cases "map_of (messages template) k")
    case None
    with e show ?thesis by simp
  next
    case (Some tm)
    with Cons.prems e have "\<exists>k \<in> fst ` set entries. map_of (messages template) k = None"
      by auto
    from Cons.IH [OF this] e Some show ?thesis by simp
  qed
qed

lemma round_half_even_less:
  "round_half_even q < 90 \<longleftrightarrow> q < 179 / 2"
proof
  assume a: "round_half_even q < 90"
  show "q < 179 / 2"
  proof (rule ccontr)
    assume "\<not> q < 179 / 2"
    then have q: "179 / 2 \<le> q" by simp
    then have "(89::rat) \<le> q" by simp
    then have f: "89 \<le> \<lfloor>q\<rfloor>" by (simp add: le_floor_iff)
    show False
    proof (cases "\<lfloor>q\<rfloor> = 89")
      case True
      with q have "1 / 2 \<le> q - of_int \<lfloor>q\<rfloor>" by simp
      with True have "round_half_even q = 90"
        by (auto simp: round_half_even_def Let_def)
      with a show False by simp
    next
      case False
      with f have "90 \<le> \<lfloor>q\<rfloor>" by linarith
      then have "90 \<le> round_half_even q"
        by (auto simp: round_half_even_def Let_def)
      with a show False by simp
    qed
  qed
next
  assume q: "q < 179 / 2"
  then have "q < 90" by simp
  then have f: "\<lfloor>q\<rfloor> < 90" by (simp add: floor_less_iff)
  show "round_half_even q < 90"
  proof (cases "\<lfloor>q\<rfloor> = 89")
    case True
    with q have "q - of_int \<lfloor>q\<rfloor> < 1 / 2" by simp
    with True show ?thesis by (simp add: round_half_even_def Let_def)
  next
    case False
    with f have "\<lfloor>q\<rfloor> + 1 < 90" by linarith
    then show ?thesis by (auto simp: round_half_even_def Let_def)
  qed
qed

text \<open>
  In exact arithmetic the locale is skipped exactly when
  \<open>200 * nb_translated < 179 * total_strings\<close>.
\<close>

lemma gate_iff:
  assumes "0 < tot"
  shows "py_round (of_nat nb / of_nat tot) 2 < COMPLETION_CUTOFF \<longleftrightarrow> 200 * nb < 179 * tot"
proof -
  have "py_round (of_nat nb / of_nat tot) 2 < COMPLETION_CUTOFF \<longleftrightarrow>
        round_half_even (of_nat nb / of_nat tot * 100) < 90"
    by (simp add: py_round_def COMPLETION_CUTOFF_def divide_less_eq)
  also have "\<dots> \<longleftrightarrow> (of_nat nb :: rat) / of_nat tot * 100 < 179 / 2"
    by (rule round_half_even_less)
  also have "\<dots> \<longleftrightarrow> (of_nat (200 * nb) :: rat) < of_nat (179 * tot)"
    using assms by (simp add: field_simps)
  also have "\<dots> \<longleftrightarrow> 200 * nb < 179 * tot"
    by (simp only: of_nat_less_iff)
  finally show ?thesis .
qed

lemma nb9: "nb_translated_loop template10 (messages catalog9) 0 = Inr 9"
  by (simp add: template10_def catalog9_def singular_def lit_def str_strip_def str_isspace_def)

lemma len10: "length (messages template10) = 10"
  by (simp add: template10_def)

lemma po9: "po2text catalog9 =
   Inr [(lit ''index.md'',
         lit ''A\<newline>\<newline>B\<newline>\<newline>C\<newline>\<newline>D\<newline>\<newline>E\<newline>\<newline>F\<newline>\<newline>G\<newline>\<newline>H\<newline>\<newline>I\<newline>\<newline>j\<newline>\<newline>'')]"
  by (simp add: po2text_def chosen_text_def catalog9_def singular_def eval_defs path_name_def)

lemma counted_case:
  "counted template =
     (\<lambda>(k, m). \<not> fuzzy m \<and>
        (\<exists>tm. map_of (messages template) k = Some tm \<and> msg_string tm \<noteq> msg_string m) \<and>
        (case msg_string m of
           Str s \<Rightarrow> str_strip s \<noteq> []
         | Tuple forms \<Rightarrow> list_all (\<lambda>x. str_strip x \<noteq> []) forms))"
  by (rule ext) (simp add: counted_def case_prod_unfold)

lemma generate_locale_gate:
  assumes "nb_translated_loop template (messages catalog) 0 = Inr nb"
    and "0 < length (messages template)"
  shows "generate_locale template catalog =
     (if py_round (of_nat nb / of_nat (length (messages template))) 2 < COMPLETION_CUTOFF
      then Inr (Skipped nb (length (messages template)))
      else (case po2text catalog of
              Inl e \<Rightarrow> Inl e
            | Inr dests \<Rightarrow>
                Inr (Written nb (length (messages template))
                       (replace_char (of_char CHR ''_'') (of_char CHR ''-'')
                          (str_of_optional (locale_identifier catalog)))
                       dests)))"
  using assms by (simp add: generate_locale_def Let_def split: sum.split)

lemma py_round_9_10: "py_round (9 / 10) 2 = 9 / 10"
  by (simp add: py_round_def round_half_even_def Let_def)

text \<open>
  C2. When every key of the locale catalog is in the template, \<open>nb_translated\<close> is the
  number of entries of the locale catalog that are not fuzzy, whose string differs from
  the template entry's string, and whose string (each form of it, for a plural tuple) is
  non-empty after trimming. The fraction is \<open>nb_translated\<close> divided by the number of
  template entries, and the locale is skipped exactly when the fraction rounded to two
  digits is below the cutoff; otherwise \<open>po2text\<close> runs. With 9 counted entries and a
  template of 10 the fraction rounds to 0.9, which is not below the cutoff, so the locale
  is regenerated. The cutoff is 9/10, and in terms of the counts a locale is skipped
  exactly when \<open>200 * nb_translated < 179 * total_strings\<close>, that is when the fraction
  is below 0.895.
\<close>

theorem completion_gate:
  "(\<forall>(template :: catalog) (catalog :: catalog).
      (\<forall>k \<in> fst ` set (messages catalog). map_of (messages template) k \<noteq> None) \<longrightarrow>
      nb_translated_loop template (messages catalog) 0 =
        Inr (length (filter
               (\<lambda>(k, m). \<not> fuzzy m \<and>
                  (\<exists>tm. map_of (messages template) k = Some tm \<and>
                        msg_string tm \<noteq> msg_string m) \<and>
                  (case msg_string m of
                     Str s \<Rightarrow> str_strip s \<noteq> []
                   | Tuple forms \<Rightarrow> list_all (\<lambda>x. str_strip x \<noteq> []) forms))
               (messages catalog))))
   \<and> (\<forall>(template :: catalog) (catalog :: catalog) nb.
        nb_translated_loop template (messages catalog) 0 = Inr nb \<longrightarrow>
        0 < length (messages template) \<longrightarrow>
        generate_locale template catalog =
          (if py_round (of_nat nb / of_nat (length (messages template))) 2 < COMPLETION_CUTOFF
           then Inr (Skipped nb (length (messages template)))
           else (case po2text catalog of
                   Inl e \<Rightarrow> Inl e
                 | Inr dests \<Rightarrow>
                     Inr (Written nb (length (messages template))
                            (replace_char (of_char CHR ''_'') (of_char CHR ''-'')
                               (str_of_optional (locale_identifier catalog)))
                            dests))))
   \<and> (\<forall>(template :: catalog) (catalog :: catalog).
        nb_translated_loop template (messages catalog) 0 = Inr 9 \<longrightarrow>
        length (messages template) = 10 \<longrightarrow>
        py_round (9 / 10) 2 = 9 / 10 \<and>
        \<not> py_round (9 / 10) 2 < COMPLETION_CUTOFF \<and>
        generate_locale template catalog =
          (case po2text catalog of
             Inl e \<Rightarrow> Inl e
           | Inr dests \<Rightarrow>
               Inr (Written 9 10
                      (replace_char (of_char CHR ''_'') (of_char CHR ''-'')
                         (str_of_optional (locale_identifier catalog)))
                      dests)))
   \<and> COMPLETION_CUTOFF = 9 / 10
   \<and> (\<forall>nb n.
        0 < n \<longrightarrow>
        (py_round (of_nat nb / of_nat n) 2 < COMPLETION_CUTOFF \<longleftrightarrow> 200 * nb < 179 * n))
   \<and> (\<forall>(template :: catalog) (catalog :: catalog) nb.
        nb_translated_loop template (messages catalog) 0 = Inr nb \<longrightarrow>
        0 < length (messages template) \<longrightarrow>
        (generate_locale template catalog = Inr (Skipped nb (length (messages template))) \<longleftrightarrow>
         200 * nb < 179 * length (messages template)))"
proof (intro conjI allI impI)
  fix template catalog :: catalog
  assume "\<forall>k \<in> fst ` set (messages catalog). map_of (messages template) k \<noteq> None"
  from nb_translated_loop_count [OF this, of 0]
  show "nb_translated_loop template (messages catalog) 0 =
        Inr (length (filter
               (\<lambda>(k, m). \<not> fuzzy m \<and>
                  (\<exists>tm. map_of (messages template) k = Some tm \<and>
                        msg_string tm \<noteq> msg_string m) \<and>
                  (case msg_string m of
                     Str s \<Rightarrow> str_strip s \<noteq> []
                   | Tuple forms \<Rightarrow> list_all (\<lambda>x. str_strip x \<noteq> []) forms))
               (messages catalog)))"
    by (simp add: counted_case)
next
  fix template catalog :: catalog and nb
  assume "nb_translated_loop template (messages catalog) 0 = Inr nb"
    and "0 < length (messages template)"
  then show "generate_locale template catalog =
          (if py_round (of_nat nb / of_nat (length (messages template))) 2 < COMPLETION_CUTOFF
           then Inr (Skipped nb (length (messages template)))
           else (case po2text catalog of
                   Inl e \<Rightarrow> Inl e
                 | Inr dests \<Rightarrow>
                     Inr (Written nb (length (messages template))
                            (replace_char (of_char CHR ''_'') (of_char CHR ''-'')
                               (str_of_optional (locale_identifier catalog)))
                            dests)))"
    by (rule generate_locale_gate)
next
  fix template catalog :: catalog
  assume nb: "nb_translated_loop template (messages catalog) 0 = Inr 9"
    and len: "length (messages template) = 10"
  show "py_round (9 / 10) 2 = 9 / 10" by (rule py_round_9_10)
  show g: "\<not> py_round (9 / 10) 2 < COMPLETION_CUTOFF"
    by (simp add: py_round_9_10 COMPLETION_CUTOFF_def)
  from len have "0 < length (messages template)" by simp
  from generate_locale_gate [OF nb this, unfolded len]
  have "generate_locale template catalog =
     (if py_round (9 / 10) 2 < COMPLETION_CUTOFF
      then Inr (Skipped 9 10)
      else (case po2text catalog of
              Inl e \<Rightarrow> Inl e
            | Inr dests \<Rightarrow>
                Inr (Written 9 10
                       (replace_char (of_char CHR ''_'') (of_char CHR ''-'')
                          (str_of_optional (locale_identifier catalog)))
                       dests)))"
    by simp
  with g show "generate_locale template catalog =
          (case po2text catalog of
             Inl e \<Rightarrow> Inl e
           | Inr dests \<Rightarrow>
               Inr (Written 9 10
                      (replace_char (of_char CHR ''_'') (of_char CHR ''-'')
                         (str_of_optional (locale_identifier catalog)))
                      dests))"
    by simp
next
  show "COMPLETION_CUTOFF = 9 / 10" by (simp add: COMPLETION_CUTOFF_def)
next
  fix nb n :: nat
  assume "0 < n"
  then show "py_round (of_nat nb / of_nat n) 2 < COMPLETION_CUTOFF \<longleftrightarrow> 200 * nb < 179 * n"
    by (rule gate_iff)
next
  fix template catalog :: catalog and nb
  assume nb: "nb_translated_loop template (messages catalog) 0 = Inr nb"
    and pos: "0 < length (messages template)"
  show "generate_locale template catalog = Inr (Skipped nb (length (messages template))) \<longleftrightarrow>
         200 * nb < 179 * length (messages template)"
    unfolding generate_locale_gate [OF nb pos] gate_iff [OF pos, symmetric]
    by (simp split: sum.split)
qed

lemma keys9:
  "\<forall>k \<in> fst ` set (messages catalog9). map_of (messages template10) k \<noteq> None"
  by (simp add: template10_def catalog9_def singular_def lit_def)

lemma nb8: "nb_translated_loop template10 (messages catalog8) 0 = Inr 8"
  by (simp add: template10_def catalog8_def singular_def lit_def str_strip_def str_isspace_def)

theorem completion_gate_witness:
  "nb_translated_loop template10 (messages catalog9) 0 = Inr 9
   \<and> length (filter
         (\<lambda>(k, m). \<not> fuzzy m \<and>
            (\<exists>tm. map_of (messages template10) k = Some tm \<and>
                  msg_string tm \<noteq> msg_string m) \<and>
            (case msg_string m of
               Str s \<Rightarrow> str_strip s \<noteq> []
             | Tuple forms \<Rightarrow> list_all (\<lambda>x. str_strip x \<noteq> []) forms))
         (messages catalog9)) = 9
   \<and> length (messages template10) = 10
   \<and> generate_locale template10 catalog9 =
       Inr (Written 9 10 (lit ''pt-BR'')
              [(lit ''index.md'',
                lit ''A\<newline>\<newline>B\<newline>\<newline>C\<newline>\<newline>D\<newline>\<newline>E\<newline>\<newline>F\<newline>\<newline>G\<newline>\<newline>H\<newline>\<newline>I\<newline>\<newline>j\<newline>\<newline>'')])
   \<and> nb_translated_loop template10 (messages catalog8) 0 = Inr 8
   \<and> generate_locale template10 catalog8 = Inr (Skipped 8 10)
   \<and> py_round (of_nat 8 / of_nat 10) 2 < COMPLETION_CUTOFF
   \<and> \<not> py_round (of_nat 179 / of_nat 200) 2 < COMPLETION_CUTOFF
   \<and> py_round (of_nat 178 / of_nat 200) 2 < COMPLETION_CUTOFF"
proof -
  note all = completion_gate
  note th = all [THEN conjunct2, THEN conjunct2, THEN conjunct1, rule_format, OF nb9 len10]
  have d: "replace_char (of_char CHR ''_'') (of_char CHR ''-'')
             (str_of_optional (locale_identifier catalog9)) = lit ''pt-BR''"
    by (simp add: replace_char_def str_of_optional_def catalog9_def lit_def)
  from th [THEN conjunct2, THEN conjunct2] have g:
    "generate_locale template10 catalog9 =
       Inr (Written 9 10 (lit ''pt-BR'')
              [(lit ''index.md'',
                lit ''A\<newline>\<newline>B\<newline>\<newline>C\<newline>\<newline>D\<newline>\<newline>E\<newline>\<newline>F\<newline>\<newline>G\<newline>\<newline>H\<newline>\<newline>I\<newline>\<newline>j\<newline>\<newline>'')])"
    by (simp only: po9 d sum.case)
  from all [THEN conjunct1, THEN spec, THEN spec, THEN mp, OF keys9] nb9
  have c: "length (filter
         (\<lambda>(k, m). \<not> fuzzy m \<and>
            (\<exists>tm. map_of (messages template10) k = Some tm \<and>
                  msg_string tm \<noteq> msg_string m) \<and>
            (case msg_string m of
               Str s \<Rightarrow> str_strip s \<noteq> []
             | Tuple forms \<Rightarrow> list_all (\<lambda>x. str_strip x \<noteq> []) forms))
         (messages catalog9)) = 9"
    by simp
  have pos10: "0 < length (messages template10)" by (simp add: len10)
  note sk = all [THEN conjunct2, THEN conjunct2, THEN conjunct2, THEN conjunct2,
      THEN conjunct2, rule_format, OF nb8 pos10]
  have s8: "generate_locale template10 catalog8 = Inr (Skipped 8 10)"
    using sk by (simp add: len10)
  note i = all [THEN conjunct2, THEN conjunct2, THEN conjunct2, THEN conjunct2,
      THEN conjunct1, rule_format]
  have b0: "py_round (of_nat 8 / of_nat 10) 2 < COMPLETION_CUTOFF"
    using i [of 10 8] by simp
  have b1: "\<not> py_round (of_nat 179 / of_nat 200) 2 < COMPLETION_CUTOFF"
    using i [of 200 179] by simp
  have b2: "py_round (of_nat 178 / of_nat 200) 2 < COMPLETION_CUTOFF"
    using i [of 200 178] by simp
  from nb9 c len10 g nb8 s8 b0 b1 b2 show ?thesis by (intro conjI)
qed

section \<open>Failures in \<open>generate\<close> and \<open>update\<close>\<close>

lemma generate_loop_append:
  "generate_loop template (xs @ ys) =
     (case generate_loop template xs of
        (reports, Some e) \<Rightarrow> (reports, Some e)
      | (reports, None) \<Rightarrow>
          (case generate_loop template ys of (reports', err) \<Rightarrow> (reports @ reports', err)))"
proof (induction xs)
  case Nil
  then show ?case by simp
next
  case (Cons x xs)
  obtain code po where x: "x = (code, po)" by (cases x)
  show ?case
  proof (cases "code = lit ''en_US''")
    case True
    with x Cons show ?thesis by simp
  next
    case False
    show ?thesis
    proof (cases po)
      case (Unreadable e)
      with x False show ?thesis by simp
    next
      case (Readable catalog)
      show ?thesis
      proof (cases "generate_locale template catalog")
        case (Inl e)
        with x False Readable show ?thesis by simp
      next
        case (Inr r)
        with x False Readable Cons show ?thesis
          by (simp split: prod.splits option.splits)
      qed
    qed
  qed
qed

lemma generate_loop_abort:
  assumes "code \<noteq> lit ''en_US''"
    and "po = Unreadable e \<or> (\<exists>catalog. po = Readable catalog \<and> generate_locale template catalog = Inl e)"
  shows "generate_loop template (before @ (code, po) # after) =
     (fst (generate_loop template before),
      Some (case snd (generate_loop template before) of None \<Rightarrow> e | Some e' \<Rightarrow> e'))"
proof -
  from assms have "generate_loop template ((code, po) # after) = ([], Some e)"
    by auto
  then show ?thesis
    by (simp add: generate_loop_append split: prod.splits option.splits)
qed



lemma generate_locale_KeyError:
  "\<exists>k \<in> fst ` set (messages catalog). map_of (messages template) k = None \<Longrightarrow>
   generate_locale template catalog = Inl KeyError"
  by (simp add: generate_locale_def nb_translated_loop_KeyError)

lemma generate_locale_catalog9: "generate_locale template10 catalog9 = Inr written9"
proof -
  have d: "replace_char (of_char CHR ''_'') (of_char CHR ''-'')
             (str_of_optional (locale_identifier catalog9)) = lit ''pt-BR''"
    by (simp add: replace_char_def str_of_optional_def catalog9_def lit_def)
  have g: "\<not> py_round (9 / 10) 2 < COMPLETION_CUTOFF"
    by (simp add: py_round_9_10 COMPLETION_CUTOFF_def)
  have "0 < length (messages template10)" by (simp add: len10)
  from generate_locale_gate [OF nb9 this, unfolded len10 po9 d sum.case] g
  show ?thesis by (simp add: written9_def)
qed

lemma generate_loop_pt_BR:
  "generate_loop template10 [(lit ''pt_BR'', Readable catalog9)] = ([(lit ''pt_BR'', written9)], None)"
  by (simp add: generate_locale_catalog9 lit_def)

lemma z_missing:
  "(lit ''z'', None) \<in> fst ` set (messages catalog_z)"
  "map_of (messages template10) (lit ''z'', None) = None"
  by (simp_all add: catalog_z_def template10_def singular_def lit_def)

text \<open>
  C10. The count looks every key of the locale catalog up in the template without a
  guard. If some key of the locale catalog is not in the template, the count raises
  \<open>KeyError\<close>, and so does the processing of that locale; if every key is in the
  template, the count returns a number. In a run, the reports printed are then those of
  the locales before that one, and the run ends with an exception: the locale gets no
  summary line and no output.
\<close>

theorem generate_lookup_unguarded:
  "(\<forall>(template :: catalog) (catalog :: catalog).
      (\<exists>k \<in> fst ` set (messages catalog). map_of (messages template) k = None) \<longrightarrow>
      nb_translated_loop template (messages catalog) 0 = Inl KeyError \<and>
      generate_locale template catalog = Inl KeyError)
   \<and> (\<forall>(template :: catalog) (catalog :: catalog).
        (\<forall>k \<in> fst ` set (messages catalog). map_of (messages template) k \<noteq> None) \<longrightarrow>
        (\<exists>nb. nb_translated_loop template (messages catalog) 0 = Inr nb))
   \<and> (\<forall>(template :: catalog) before code (catalog :: catalog) after.
        code \<noteq> lit ''en_US'' \<longrightarrow>
        (\<exists>k \<in> fst ` set (messages catalog). map_of (messages template) k = None) \<longrightarrow>
        fst (generate_loop template (before @ (code, Readable catalog) # after)) =
          fst (generate_loop template before) \<and>
        snd (generate_loop template (before @ (code, Readable catalog) # after)) \<noteq> None)"
proof (intro conjI allI impI)
  fix template catalog :: catalog
  assume a: "\<exists>k \<in> fst ` set (messages catalog). map_of (messages template) k = None"
  then show "nb_translated_loop template (messages catalog) 0 = Inl KeyError"
    by (rule nb_translated_loop_KeyError)
  from a show "generate_locale template catalog = Inl KeyError"
    by (rule generate_locale_KeyError)
next
  fix template catalog :: catalog
  assume "\<forall>k \<in> fst ` set (messages catalog). map_of (messages template) k \<noteq> None"
  from nb_translated_loop_count [OF this, of 0]
  show "\<exists>nb. nb_translated_loop template (messages catalog) 0 = Inr nb" by blast
next
  fix template catalog :: catalog and before code after
  assume c: "code \<noteq> lit ''en_US''"
    and a: "\<exists>k \<in> fst ` set (messages catalog). map_of (messages template) k = None"
  from generate_locale_KeyError [OF a]
  have "Readable catalog = Unreadable KeyError \<or>
     (\<exists>c. Readable catalog = Readable c \<and> generate_locale template c = Inl KeyError)"
    by blast
  note r = generate_loop_abort [OF c this, of before after]
  from r show "fst (generate_loop template (before @ (code, Readable catalog) # after)) =
          fst (generate_loop template before)" by simp
  from r show "snd (generate_loop template (before @ (code, Readable catalog) # after)) \<noteq> None"
    by simp
qed

theorem generate_lookup_unguarded_witness:
  "(lit ''z'', None) \<in> fst ` set (messages catalog_z)
   \<and> map_of (messages template10) (lit ''z'', None) = None
   \<and> generate_locale template10 catalog_z = Inl KeyError
   \<and> fst (generate_loop template10
            ([(lit ''pt_BR'', Readable catalog9)] @ (lit ''zz'', Readable catalog_z) # []))
       = [(lit ''pt_BR'', written9)]
   \<and> snd (generate_loop template10
            ([(lit ''pt_BR'', Readable catalog9)] @ (lit ''zz'', Readable catalog_z) # []))
       \<noteq> None
   \<and> (\<exists>nb. nb_translated_loop template10 (messages catalog9) 0 = Inr nb)"
proof -
  have a: "\<exists>k \<in> fst ` set (messages catalog_z). map_of (messages template10) k = None"
    using z_missing by blast
  have c: "lit ''zz'' \<noteq> lit ''en_US''" by (simp add: lit_def)
  note th = generate_lookup_unguarded
  from th a have g: "generate_locale template10 catalog_z = Inl KeyError" by blast
  note r = th [THEN conjunct2, THEN conjunct2, rule_format, OF c a,
      of "[(lit ''pt_BR'', Readable catalog9)]" "[]"]
  from r [THEN conjunct1] have f: "fst (generate_loop template10
            ([(lit ''pt_BR'', Readable catalog9)] @ (lit ''zz'', Readable catalog_z) # []))
       = [(lit ''pt_BR'', written9)]"
    by (simp only: generate_loop_pt_BR fst_conv)
  note w = th [THEN conjunct2, THEN conjunct1, THEN spec, THEN spec, THEN mp, OF keys9]
  from z_missing g f r [THEN conjunct2] w show ?thesis by (intro conjI)
qed




section \<open>Extraction collects the locations of equal blocks\<close>

lemma add_locations_keys:
  "map fst (add_locations ms k new) =
     (if k \<in> fst ` set ms then map fst ms else map fst ms @ [k])"
  by (induction ms k new rule: add_locations.induct) (auto simp: image_iff)

lemma add_locations_distinct:
  "distinct (map fst ms) \<Longrightarrow> distinct (map fst (add_locations ms k new))"
  by (simp add: add_locations_keys)

lemma add_locations_key_set: "fst ` set (add_locations ms k new) = insert k (fst ` set ms)"
proof -
  have "set (map fst (add_locations ms k new)) = insert k (set (map fst ms))"
    unfolding add_locations_keys by auto
  then show ?thesis by simp
qed

lemma add_locations_locs:
  "locs_of (add_locations ms k new) k' =
     locs_of ms k' @ (if k' = k then locations new else [])"
  by (induction ms k new rule: add_locations.induct) (auto simp: locs_of_def)

lemma add_locations_untranslated:
  "untranslated ms \<Longrightarrow> msg_id new = Str (fst k) \<Longrightarrow> msg_string new = Str [] \<Longrightarrow>
   \<not> fuzzy new \<Longrightarrow> untranslated (add_locations ms k new)"
  by (induction ms k new rule: add_locations.induct) (auto simp: untranslated_def)

lemma add_all_props:
  "(distinct (map fst (messages t)) \<longrightarrow> distinct (map fst (messages (add_all t f found))))
   \<and> fst ` set (messages (add_all t f found)) = fst ` set (messages t) \<union> keys_found found
   \<and> (untranslated (messages t) \<longrightarrow> untranslated (messages (add_all t f found)))
   \<and> (\<forall>k. locs_of (messages (add_all t f found)) k = locs_of (messages t) k @ found_at f found k)"
proof (induction found arbitrary: t)
  case Nil
  then show ?case by (simp add: keys_found_def found_at_def)
next
  case (Cons b found)
  obtain lineno message comments ctx where b: "b = (lineno, message, comments, ctx)"
    by (cases b)
  let ?t = "catalog_add t message [(f, lineno)] comments ctx"
  note ih = Cons.IH [of ?t]
  note ih1 = ih [THEN conjunct1]
  note ih2 = ih [THEN conjunct2, THEN conjunct1]
  note ih3 = ih [THEN conjunct2, THEN conjunct2, THEN conjunct1]
  note ih4 = ih [THEN conjunct2, THEN conjunct2, THEN conjunct2, rule_format]
  have s: "add_all t f (b # found) = add_all ?t f found" by (simp add: b)
  have d: "distinct (map fst (messages t)) \<longrightarrow> distinct (map fst (messages (add_all t f (b # found))))"
    unfolding s using ih1 by (simp add: catalog_add_def add_locations_distinct)
  have k: "fst ` set (messages (add_all t f (b # found))) =
      fst ` set (messages t) \<union> keys_found (b # found)"
    unfolding s ih2 by (auto simp: catalog_add_def add_locations_key_set keys_found_def b)
  have u: "untranslated (messages t) \<longrightarrow> untranslated (messages (add_all t f (b # found)))"
    unfolding s using ih3 by (simp add: catalog_add_def add_locations_untranslated)
  have l: "locs_of (messages (add_all t f (b # found))) k =
      locs_of (messages t) k @ found_at f (b # found) k" for k
    unfolding s ih4 by (simp add: catalog_add_def add_locations_locs found_at_def b)
  from d k u l show ?case by (intro conjI allI)
qed

lemma extract_loop_props:
  assumes "extract_loop t tree = Inr template"
  shows "(distinct (map fst (messages t)) \<longrightarrow> distinct (map fst (messages template)))
   \<and> fst ` set (messages template) = fst ` set (messages t) \<union> keys_in tree
   \<and> (untranslated (messages t) \<longrightarrow> untranslated (messages template))
   \<and> (\<forall>k. locs_of (messages template) k = locs_of (messages t) k @ occurrences tree k)"
  using assms
proof (induction tree arbitrary: t)
  case Nil
  then show ?case by (simp add: keys_in_def occurrences_def)
next
  case (Cons x tree)
  obtain f content where x: "x = (f, content)" by (cases x)
  from Cons.prems x obtain found where fo: "extract_from_file content = Inr found"
    and rec: "extract_loop (add_all t f found) tree = Inr template"
    by (cases "extract_from_file content") auto
  note ih = Cons.IH [OF rec]
  note ih1 = ih [THEN conjunct1]
  note ih2 = ih [THEN conjunct2, THEN conjunct1]
  note ih3 = ih [THEN conjunct2, THEN conjunct2, THEN conjunct1]
  note ih4 = ih [THEN conjunct2, THEN conjunct2, THEN conjunct2, rule_format]
  note a = add_all_props [of t f found]
  note a1 = a [THEN conjunct1]
  note a2 = a [THEN conjunct2, THEN conjunct1]
  note a3 = a [THEN conjunct2, THEN conjunct2, THEN conjunct1]
  note a4 = a [THEN conjunct2, THEN conjunct2, THEN conjunct2, rule_format]
  have d: "distinct (map fst (messages t)) \<longrightarrow> distinct (map fst (messages template))"
    using a1 ih1 by simp
  have ki: "keys_in (x # tree) = keys_found found \<union> keys_in tree"
    by (simp add: keys_in_def x fo)
  have k: "fst ` set (messages template) = fst ` set (messages t) \<union> keys_in (x # tree)"
    unfolding ih2 a2 ki by auto
  have u: "untranslated (messages t) \<longrightarrow> untranslated (messages template)"
    using a3 ih3 by simp
  have oc: "occurrences (x # tree) k = found_at f found k @ occurrences tree k" for k
    by (simp add: occurrences_def x fo)
  have l: "locs_of (messages template) k = locs_of (messages t) k @ occurrences (x # tree) k" for k
    unfolding ih4 a4 oc by simp
  from d k u l show ?case by (intro conjI allI)
qed

lemma extract_loop_total:
  "\<forall>(f, content) \<in> set tree. \<exists>found. extract_from_file content = Inr found \<Longrightarrow>
   \<exists>template. extract_loop t tree = Inr template"
proof (induction tree arbitrary: t)
  case Nil
  then show ?case by simp
next
  case (Cons x tree)
  obtain f content where x: "x = (f, content)" by (cases x)
  with Cons.prems obtain found where fo: "extract_from_file content = Inr found" by auto
  from Cons.prems have "\<forall>(f, content) \<in> set tree. \<exists>found. extract_from_file content = Inr found"
    by simp
  from Cons.IH [OF this, of "add_all t f found"] x fo show ?case by simp
qed

lemma locs_of_member:
  "distinct (map fst ms) \<Longrightarrow> (k, m) \<in> set ms \<Longrightarrow> locs_of ms k = locations m"
  by (simp add: locs_of_def)

lemma extract_tree2: "extract_tree tree2 = Inr template2"
  by (simp add: extract_tree_def tree2_def template2_def extract_from_file_def catalog_add_def
      singular_def eval_defs)

text \<open>
  C4. Whenever extraction returns, the template has exactly one entry per message
  identity, the identities are those of the blocks found in the tree, and the locations of
  the entry for an identity are all the (file, line) occurrences of blocks with that
  identity, in the order in which the files are visited and, within a file, in the order
  of the blocks; the entry carries the block text as its id and no translation. Extraction
  returns whenever every file of the tree can be tokenized.
\<close>

theorem extract_deduplicates:
  "(\<forall>tree (template :: catalog).
      extract_tree tree = Inr template \<longrightarrow>
      distinct (map fst (messages template)) \<and>
      fst ` set (messages template) =
        (\<Union>(f, content) \<in> set tree.
           case extract_from_file content of
             Inl e \<Rightarrow> {}
           | Inr found \<Rightarrow> (\<lambda>(lineno, message, comments, ctx). (message, ctx)) ` set found) \<and>
      (\<forall>k (m :: message).
         (k, m) \<in> set (messages template) \<longrightarrow>
         msg_id m = Str (fst k) \<and> msg_string m = Str [] \<and>
         locations m =
           concat (map (\<lambda>(f, content).
                          case extract_from_file content of
                            Inl e \<Rightarrow> []
                          | Inr found \<Rightarrow>
                              map (\<lambda>b. (f, fst b))
                                (filter (\<lambda>(lineno, message, comments, ctx). (message, ctx) = k)
                                   found))
                     tree)))
   \<and> (\<forall>tree.
        (\<forall>(f, content) \<in> set tree. \<exists>found. extract_from_file content = Inr found) \<longrightarrow>
        (\<exists>template. extract_tree tree = Inr template))"
proof (intro conjI allI impI)
  fix tree and template :: catalog
  assume e: "extract_tree tree = Inr template"
  then have l: "extract_loop \<lparr>messages = [], locale_identifier = None\<rparr> tree = Inr template"
    by (simp add: extract_tree_def)
  note p = extract_loop_props [OF l]
  from p [THEN conjunct1] show d: "distinct (map fst (messages template))" by simp
  from p [THEN conjunct2, THEN conjunct1]
  show "fst ` set (messages template) =
        (\<Union>(f, content) \<in> set tree.
           case extract_from_file content of
             Inl e \<Rightarrow> {}
           | Inr found \<Rightarrow> (\<lambda>(lineno, message, comments, ctx). (message, ctx)) ` set found)"
    unfolding keys_in_def keys_found_def by simp
  from p [THEN conjunct2, THEN conjunct2, THEN conjunct1]
  have u: "untranslated (messages template)" by (simp add: untranslated_def)
  {
    fix k and m :: message
    assume km: "(k, m) \<in> set (messages template)"
    with u show "msg_id m = Str (fst k)" and "msg_string m = Str []"
      by (auto simp: untranslated_def)
    from p [THEN conjunct2, THEN conjunct2, THEN conjunct2, rule_format, of k]
    have "locs_of (messages template) k = occurrences tree k" by (simp add: locs_of_def)
    with locs_of_member [OF d km] have "locations m = occurrences tree k" by simp
    then show "locations m =
           concat (map (\<lambda>(f, content).
                          case extract_from_file content of
                            Inl e \<Rightarrow> []
                          | Inr found \<Rightarrow>
                              map (\<lambda>b. (f, fst b))
                                (filter (\<lambda>(lineno, message, comments, ctx). (message, ctx) = k)
                                   found))
                     tree)"
      by (simp only: occurrences_def found_at_def)
  }
next
  fix tree :: "(str \<times> bytes) list"
  assume "\<forall>(f, content) \<in> set tree. \<exists>found. extract_from_file content = Inr found"
  from extract_loop_total [OF this]
  show "\<exists>template. extract_tree tree = Inr template" by (simp add: extract_tree_def)
qed

theorem extract_deduplicates_witness:
  "extract_tree tree2 = Inr template2
   \<and> distinct (map fst (messages template2))
   \<and> singular ''x'' '''' False
         [(''en-US/a.md'', 1), (''en-US/sub/b.md'', 3), (''en-US/sub/b.md'', 5)]
       \<in> set (messages template2)
   \<and> locations (snd (singular ''x'' '''' False
         [(''en-US/a.md'', 1), (''en-US/sub/b.md'', 3), (''en-US/sub/b.md'', 5)])) =
       [(lit ''en-US/a.md'', 1), (lit ''en-US/sub/b.md'', 3), (lit ''en-US/sub/b.md'', 5)]
   \<and> locations (snd (singular ''x'' '''' False
         [(''en-US/a.md'', 1), (''en-US/sub/b.md'', 3), (''en-US/sub/b.md'', 5)])) =
       concat (map (\<lambda>(f, content).
                      case extract_from_file content of
                        Inl e \<Rightarrow> []
                      | Inr found \<Rightarrow>
                          map (\<lambda>b. (f, fst b))
                            (filter (\<lambda>(lineno, message, comments, ctx).
                                       (message, ctx) = (lit ''x'', None))
                               found))
                 tree2)
   \<and> (\<exists>template. extract_tree tree2 = Inr template)"
proof -
  let ?e = "singular ''x'' '''' False
         [(''en-US/a.md'', 1), (''en-US/sub/b.md'', 3), (''en-US/sub/b.md'', 5)]"
  note th = extract_deduplicates [THEN conjunct1, rule_format, OF extract_tree2]
  have m: "((lit ''x'', None), snd ?e) \<in> set (messages template2)"
    by (simp add: template2_def singular_def)
  have m': "?e \<in> set (messages template2)" by (simp add: template2_def)
  have l: "locations (snd ?e) =
       [(lit ''en-US/a.md'', 1), (lit ''en-US/sub/b.md'', 3), (lit ''en-US/sub/b.md'', 5)]"
    by (simp add: singular_def)
  from th [THEN conjunct1] have d: "distinct (map fst (messages template2))" .
  from th [THEN conjunct2, THEN conjunct2, rule_format, OF m]
  have o: "locations (snd ?e) =
       concat (map (\<lambda>(f, content).
                      case extract_from_file content of
                        Inl e \<Rightarrow> []
                      | Inr found \<Rightarrow>
                          map (\<lambda>b. (f, fst b))
                            (filter (\<lambda>(lineno, message, comments, ctx).
                                       (message, ctx) = (lit ''x'', None))
                               found))
                 tree2)"
    by (rule conjunct2 [THEN conjunct2])
  have "\<forall>(f, content) \<in> set tree2. \<exists>found. extract_from_file content = Inr found"
    by (simp add: tree2_def extract_from_file_def eval_defs)
  note t = extract_deduplicates [THEN conjunct2, THEN spec, THEN mp, OF this]
  from extract_tree2 d m' l o t show ?thesis by (intro conjI)
qed

section \<open>The synchronizer keeps translations\<close>

lemma map_of_sync:
  "map_of (map (sync_entry existing) ms) k =
     map_option (\<lambda>tm. snd (sync_entry existing (k, tm))) (map_of ms k)"
  by (induction ms) (auto simp: sync_entry_def split: option.splits)

text \<open>
  C1. For every template and existing locale catalog: if the entry for \<open>k\<close> in the
  existing catalog is not fuzzy and \<open>k\<close> also occurs in the template, then the
  synchronized catalog has an entry for \<open>k\<close> with the same translated string and
  \<open>fuzzy = false\<close>, whose locations and automatic comments are the template's.
\<close>

theorem sync_preserves_translation:
  "\<forall>(template :: catalog) (existing :: catalog) k (old :: message) (tm :: message).
     map_of (messages existing) k = Some old \<longrightarrow> \<not> fuzzy old \<longrightarrow>
     map_of (messages template) k = Some tm \<longrightarrow>
     (\<exists>m. map_of (messages (sync template existing)) k = Some m \<and>
          msg_string m = msg_string old \<and> \<not> fuzzy m \<and>
          locations m = locations tm \<and> auto_comments m = auto_comments tm \<and>
          msg_id m = msg_id tm)"
  by (simp add: sync_def map_of_sync sync_entry_def)

theorem sync_preserves_translation_witness:
  "map_of (messages existing_fr) (lit ''x'', None)
     = Some (snd (singular ''x'' ''iks'' False [(''en-US/old.md'', 7)]))
   \<and> \<not> fuzzy (snd (singular ''x'' ''iks'' False [(''en-US/old.md'', 7)]))
   \<and> map_of (messages template_xy) (lit ''x'', None)
     = Some (snd (singular ''x'' '''' False [(''en-US/a.md'', 1), (''en-US/sub/b.md'', 3)]))
   \<and> (\<exists>m. map_of (messages (sync template_xy existing_fr)) (lit ''x'', None) = Some m \<and>
          msg_string m = Str (lit ''iks'') \<and> \<not> fuzzy m \<and>
          locations m = [(lit ''en-US/a.md'', 1), (lit ''en-US/sub/b.md'', 3)])"
proof -
  let ?old = "snd (singular ''x'' ''iks'' False [(''en-US/old.md'', 7)])"
  let ?tm = "snd (singular ''x'' '''' False [(''en-US/a.md'', 1), (''en-US/sub/b.md'', 3)])"
  have a: "map_of (messages existing_fr) (lit ''x'', None) = Some ?old"
    by (simp add: existing_fr_def singular_def)
  have b: "\<not> fuzzy ?old" by (simp add: singular_def)
  have c: "map_of (messages template_xy) (lit ''x'', None) = Some ?tm"
    by (simp add: template_xy_def singular_def)
  from sync_preserves_translation [rule_format, OF a b c]
  obtain m where m: "map_of (messages (sync template_xy existing_fr)) (lit ''x'', None) = Some m"
    "msg_string m = msg_string ?old" "\<not> fuzzy m" "locations m = locations ?tm"
    by blast
  from m(2) have s: "msg_string m = Str (lit ''iks'')" by (simp add: singular_def)
  from m(4) have l: "locations m = [(lit ''en-US/a.md'', 1), (lit ''en-US/sub/b.md'', 3)]"
    by (simp add: singular_def)
  from m(1) s m(3) l have "\<exists>m. map_of (messages (sync template_xy existing_fr)) (lit ''x'', None) = Some m \<and>
          msg_string m = Str (lit ''iks'') \<and> \<not> fuzzy m \<and>
          locations m = [(lit ''en-US/a.md'', 1), (lit ''en-US/sub/b.md'', 3)]"
    by blast
  with a b c show ?thesis by (intro conjI)
qed

end
